theory Spec2Isabelle
  imports Main "HOL-Library.Sublist" "HOL-Library.Char_ord" "HOL-Library.List_Lexorder"
begin

section \<open>The dependency graph (dep_graph.py)\<close>

text \<open>
  Vertices are relative file paths, but the class \<^verbatim>\<open>DepGraph\<close> never looks inside them, so
  the model is polymorphic in the vertex type. A Python \<^verbatim>\<open>dict\<close> is a partial map, a Python
  \<^verbatim>\<open>set\<close> is a set. The exceptions the graph can raise are values.
\<close>

datatype error = KeyError | ValueError

type_synonym 'v adjacency = "'v \<rightharpoonup> 'v set"

record 'v DepGraph =
  parents :: "'v adjacency"
  children :: "'v adjacency"

text \<open>
  Python does not fix the order in which a \<^verbatim>\<open>for\<close> loop or \<^verbatim>\<open>iter\<close> walks a set. Every
  function that iterates takes that order as a parameter \<open>ord\<close>; all that is known of it is
  that it lists each element of a (finite) set exactly once.
\<close>

type_synonym 'v set_order = "'v set \<Rightarrow> 'v list"

definition iteration_order :: "'v set_order \<Rightarrow> bool" where
  "iteration_order ord = (\<forall>S. finite S \<longrightarrow> set (ord S) = S \<and> distinct (ord S))"

text \<open>The order used wherever a concrete run is evaluated: paths in lexicographic order.\<close>

definition path_order :: "string set_order" where
  "path_order S = sorted_list_of_set S"

subsection \<open>update\<close>

text \<open>
  \<^verbatim>\<open>for lost_parent in old_parents.difference(new_parents):
      self.children[lost_parent].remove(filename)\<close>
  Both the subscript and \<^verbatim>\<open>set.remove\<close> raise \<^verbatim>\<open>KeyError\<close>. The dictionary is mutated in
  place, so the loop returns the dictionary as it stands when the loop ends or raises.
\<close>

fun remove_lost :: "'v \<Rightarrow> 'v adjacency \<Rightarrow> 'v list \<Rightarrow> error option \<times> 'v adjacency" where
  "remove_lost filename ch [] = (None, ch)"
| "remove_lost filename ch (lost_parent # rest) =
     (case ch lost_parent of
        None \<Rightarrow> (Some KeyError, ch)
      | Some s \<Rightarrow>
          if filename \<in> s
          then remove_lost filename (ch(lost_parent \<mapsto> s - {filename})) rest
          else (Some KeyError, ch))"

text \<open>
  \<^verbatim>\<open>for new_parent in new_parents.difference(old_parents):
      self.children[new_parent].add(filename)\<close>
\<close>

fun add_new :: "'v \<Rightarrow> 'v adjacency \<Rightarrow> 'v list \<Rightarrow> error option \<times> 'v adjacency" where
  "add_new filename ch [] = (None, ch)"
| "add_new filename ch (new_parent # rest) =
     (case ch new_parent of
        None \<Rightarrow> (Some KeyError, ch)
      | Some s \<Rightarrow> add_new filename (ch(new_parent \<mapsto> insert filename s)) rest)"

text \<open>
  \<^verbatim>\<open>DepGraph.update\<close>. The first component is \<open>None\<close> when the call returns and \<open>Some e\<close> when
  it raises \<open>e\<close>; the second is the graph object after the call, in both cases.
\<close>

definition old_parents_of :: "'v DepGraph \<Rightarrow> 'v \<Rightarrow> 'v set" where
  "old_parents_of g filename = (case parents g filename of None \<Rightarrow> {} | Some s \<Rightarrow> s)"

definition update ::
  "'v set_order \<Rightarrow> 'v DepGraph \<Rightarrow> 'v \<Rightarrow> 'v set \<Rightarrow> error option \<times> 'v DepGraph" where
  "update ord g filename new_parents =
     (let old_parents = old_parents_of g filename in
      if new_parents \<noteq> old_parents then
        (case remove_lost filename (children g) (ord (old_parents - new_parents)) of
           (Some e, ch1) \<Rightarrow> (Some e, g\<lparr>children := ch1\<rparr>)
         | (None, ch1) \<Rightarrow>
             (case add_new filename ch1 (ord (new_parents - old_parents)) of
                (Some e, ch2) \<Rightarrow> (Some e, g\<lparr>children := ch2\<rparr>)
              | (None, ch2) \<Rightarrow>
                  (None, g\<lparr>children := ch2,
                           parents := (parents g)(filename \<mapsto> new_parents)\<rparr>)))
      else (None, g))"

subsection \<open>from_parents\<close>

text \<open>
  \<^verbatim>\<open>children = {}
  for filename in parents:
      children[filename] = set()\<close>
\<close>

fun seed_children :: "'v adjacency \<Rightarrow> 'v list \<Rightarrow> 'v adjacency" where
  "seed_children ch [] = ch"
| "seed_children ch (filename # rest) = seed_children (ch(filename \<mapsto> {})) rest"

text \<open>
  \<^verbatim>\<open>for d in parents[filename]:
      children[d].add(filename)\<close>
  The subscript raises \<^verbatim>\<open>KeyError\<close> when \<open>d\<close> is not a key. The dictionary under
  construction is local to \<^verbatim>\<open>from_parents\<close>, so nothing of it is left after a raise.
\<close>

fun add_edges :: "'v \<Rightarrow> 'v adjacency \<Rightarrow> 'v list \<Rightarrow> error + 'v adjacency" where
  "add_edges filename ch [] = Inr ch"
| "add_edges filename ch (d # rest) =
     (case ch d of
        None \<Rightarrow> Inl KeyError
      | Some s \<Rightarrow> add_edges filename (ch(d \<mapsto> insert filename s)) rest)"

text \<open>
  \<^verbatim>\<open>for filename in parents: ...\<close>, the outer loop. (The \<^verbatim>\<open>print(children)\<close> at the end of
  each round writes to standard output only and is left out.)
\<close>

fun add_all_edges ::
  "'v set_order \<Rightarrow> 'v adjacency \<Rightarrow> 'v adjacency \<Rightarrow> 'v list \<Rightarrow> error + 'v adjacency" where
  "add_all_edges ord ps ch [] = Inr ch"
| "add_all_edges ord ps ch (filename # rest) =
     (case ps filename of
        None \<Rightarrow> Inl KeyError
      | Some ds \<Rightarrow>
          (case add_edges filename ch (ord ds) of
             Inl e \<Rightarrow> Inl e
           | Inr ch' \<Rightarrow> add_all_edges ord ps ch' rest))"

definition from_parents :: "'v set_order \<Rightarrow> 'v adjacency \<Rightarrow> error + 'v DepGraph" where
  "from_parents ord ps =
     (let keys = ord (dom ps) in
      case add_all_edges ord ps (seed_children Map.empty keys) keys of
        Inl e \<Rightarrow> Inl e
      | Inr ch \<Rightarrow> Inr \<lparr>parents = ps, children = ch\<rparr>)"

subsection \<open>connected_components, a generator\<close>

text \<open>
  \<^verbatim>\<open>connected_components\<close> contains \<^verbatim>\<open>yield\<close>: calling it runs none of its body and returns a
  generator object. The body runs when the generator is advanced (\<^verbatim>\<open>next\<close>), up to the next
  \<^verbatim>\<open>yield\<close>, to the end of the body, or to an exception that escapes it.

  A generator object is modelled by what its frame holds. \<open>Fresh\<close>: not started, the frame
  holds the arguments. \<open>Suspended\<close>: stopped at \<^verbatim>\<open>yield child\<close>, the frame holds the locals
  \<^verbatim>\<open>adjacency\<close>, \<^verbatim>\<open>seen\<close>, \<^verbatim>\<open>stack\<close> and \<^verbatim>\<open>child\<close>. \<open>Finished\<close>: the body has returned or raised.
  The stack is a list of set iterators, each the list of the elements it has not produced yet;
  the head of the list is the top of the stack (\<^verbatim>\<open>stack[-1]\<close>).
\<close>

datatype 'v cc_gen =
    Fresh "'v DepGraph" string 'v
  | Suspended "'v adjacency" "'v set" "'v list list" 'v
  | Finished

datatype 'v signal = Yield 'v | StopIteration | Raise error

definition connected_components :: "'v DepGraph \<Rightarrow> string \<Rightarrow> 'v \<Rightarrow> 'v cc_gen" where
  "connected_components g direction start = Fresh g direction start"

definition get_descendants :: "'v DepGraph \<Rightarrow> 'v \<Rightarrow> 'v cc_gen" where
  "get_descendants g filename = connected_components g ''descendants'' filename"

text \<open>
  The \<^verbatim>\<open>while stack:\<close> loop, from the top of a round to the next \<^verbatim>\<open>yield\<close> or to the end:
  \<^verbatim>\<open>children = stack[-1]
  try:
      child = next(children)
      if child not in seen:
          yield child
          ...
  except StopIteration:
      stack.pop()\<close>
\<close>

fun cc_loop :: "'v adjacency \<Rightarrow> 'v set \<Rightarrow> 'v list list \<Rightarrow> 'v signal \<times> 'v cc_gen" where
  "cc_loop adjacency seen [] = (StopIteration, Finished)"
| "cc_loop adjacency seen ([] # stack) = cc_loop adjacency seen stack"
| "cc_loop adjacency seen ((child # it) # stack) =
     (if child \<notin> seen then (Yield child, Suspended adjacency seen (it # stack) child)
      else cc_loop adjacency seen (it # stack))"

text \<open>
  One \<^verbatim>\<open>next\<close> on the generator. From \<open>Fresh\<close> it runs the head of the body: the choice of
  \<^verbatim>\<open>adjacency\<close> (or \<^verbatim>\<open>ValueError\<close>), \<^verbatim>\<open>seen = set([start])\<close> and
  \<^verbatim>\<open>stack = [iter(adjacency[start])]\<close>. From \<open>Suspended\<close> it resumes after the \<^verbatim>\<open>yield\<close>:
  \<^verbatim>\<open>seen.add(child)\<close> and \<^verbatim>\<open>stack.append(iter(adjacency[child]))\<close>. Both subscripts raise
  \<^verbatim>\<open>KeyError\<close>, which the \<^verbatim>\<open>except StopIteration\<close> clause does not catch.
\<close>

definition cc_start :: "'v set_order \<Rightarrow> 'v adjacency \<Rightarrow> 'v \<Rightarrow> 'v signal \<times> 'v cc_gen" where
  "cc_start ord adjacency start =
     (case adjacency start of
        None \<Rightarrow> (Raise KeyError, Finished)
      | Some s \<Rightarrow> cc_loop adjacency {start} [ord s])"

fun cc_next :: "'v set_order \<Rightarrow> 'v cc_gen \<Rightarrow> 'v signal \<times> 'v cc_gen" where
  "cc_next ord (Fresh g direction start) =
     (if direction = ''descendants'' then cc_start ord (children g) start
      else if direction = ''ancestors'' then cc_start ord (parents g) start
      else (Raise ValueError, Finished))"
| "cc_next ord (Suspended adjacency seen stack child) =
     (case adjacency child of
        None \<Rightarrow> (Raise KeyError, Finished)
      | Some s \<Rightarrow> cc_loop adjacency (insert child seen) (ord s # stack))"
| "cc_next ord Finished = (StopIteration, Finished)"

text \<open>
  Iterating a generator to its end, as \<^verbatim>\<open>for filename in filenames\<close> and \<^verbatim>\<open>list\<close> do: the
  vertices yielded, in order, and the exception that ended the iteration, if any. The result
  is \<open>None\<close> when the iteration never ends.
\<close>

partial_function (option) iterate ::
  "'v set_order \<Rightarrow> 'v cc_gen \<Rightarrow> 'v list \<Rightarrow> ('v list \<times> error option) option" where
  "iterate ord gen acc =
     (case cc_next ord gen of
        (Yield v, gen') \<Rightarrow> iterate ord gen' (acc @ [v])
      | (StopIteration, gen') \<Rightarrow> Some (acc, None)
      | (Raise e, gen') \<Rightarrow> Some (acc, Some e))"

subsection \<open>The invariants of the specification\<close>

definition I1 :: "'v DepGraph \<Rightarrow> bool" where
  "I1 g = (\<forall>u v. (\<exists>P. parents g v = Some P \<and> u \<in> P) = (\<exists>C. children g u = Some C \<and> v \<in> C))"

definition I2 :: "'v DepGraph \<Rightarrow> bool" where
  "I2 g = (dom (parents g) = dom (children g) \<and>
           (\<forall>v P. parents g v = Some P \<longrightarrow> P \<subseteq> dom (parents g)) \<and>
           (\<forall>u C. children g u = Some C \<longrightarrow> C \<subseteq> dom (children g)))"

text \<open>A Python dictionary has finitely many keys and a Python set finitely many elements.\<close>

definition finite_graph :: "'v DepGraph \<Rightarrow> bool" where
  "finite_graph g = (finite (dom (parents g)) \<and> finite (dom (children g)) \<and>
                     (\<forall>v P. parents g v = Some P \<longrightarrow> finite P) \<and>
                     (\<forall>u C. children g u = Some C \<longrightarrow> finite C))"

section \<open>The source classifier (sources.py)\<close>

text \<open>
  Of a \<^verbatim>\<open>Sources\<close> object the model keeps the attributes the classifier and the reloader
  read: the two optional prefix lists (\<open>None\<close> is Python's \<^verbatim>\<open>None\<close>), the optional
  dictionary of extra dependencies, and the dependency graph. The attribute \<^verbatim>\<open>dep_graph\<close>
  exists once \<^verbatim>\<open>make_dep_graph\<close> has run, which \<^verbatim>\<open>Site.render\<close> does before it creates the
  reloader; the model is of a \<^verbatim>\<open>Sources\<close> object from then on.
\<close>

record Sources =
  staticpaths :: "string list option"
  datapaths :: "string list option"
  extra_deps :: "(string \<rightharpoonup> string list) option"
  dep_graph :: "string DepGraph"

text \<open>\<^verbatim>\<open>os.path.sep\<close> on a POSIX system.\<close>

definition os_path_sep :: char where
  "os_path_sep = CHR ''/''"

text \<open>\<^verbatim>\<open>filename.startswith(path)\<close>\<close>

definition startswith :: "string \<Rightarrow> string \<Rightarrow> bool" where
  "startswith filename path = prefix path filename"

text \<open>\<^verbatim>\<open>str.split(sep)\<close> for a separator of one character: the result is never empty.\<close>

fun split :: "string \<Rightarrow> char \<Rightarrow> string list" where
  "split [] sep = [[]]"
| "split (c # cs) sep =
     (if c = sep then [] # split cs sep
      else (case split cs sep of
              [] \<Rightarrow> [[c]]
            | w # ws \<Rightarrow> (c # w) # ws))"

text \<open>
  \<^verbatim>\<open>for path in self.staticpaths:
      if filename.startswith(path):
          return True
  return False\<close>
\<close>

fun startswith_any :: "string \<Rightarrow> string list \<Rightarrow> bool" where
  "startswith_any filename [] = False"
| "startswith_any filename (path # rest) =
     (if startswith filename path then True else startswith_any filename rest)"

definition is_static :: "Sources \<Rightarrow> string \<Rightarrow> bool" where
  "is_static src filename =
     (case staticpaths src of
        None \<Rightarrow> False
      | Some paths \<Rightarrow> startswith_any filename paths)"

definition is_data :: "Sources \<Rightarrow> string \<Rightarrow> bool" where
  "is_data src filename =
     (case datapaths src of
        None \<Rightarrow> False
      | Some paths \<Rightarrow> startswith_any filename paths)"

definition is_partial :: "string \<Rightarrow> bool" where
  "is_partial filename = list_ex (\<lambda>x. startswith x ''_'') (split filename os_path_sep)"

definition is_ignored :: "string \<Rightarrow> bool" where
  "is_ignored filename = list_ex (\<lambda>x. startswith x ''.'') (split filename os_path_sep)"

definition is_template :: "Sources \<Rightarrow> string \<Rightarrow> bool" where
  "is_template src filename =
     (if is_partial filename then False
      else if is_ignored filename then False
      else if is_static src filename then False
      else if is_data src filename then False
      else True)"

definition is_jinja :: "Sources \<Rightarrow> string \<Rightarrow> bool" where
  "is_jinja src filename = (is_partial filename \<or> is_template src filename)"

text \<open>
  \<^verbatim>\<open>get_dependencies\<close> returns a list on three of its branches and the generator object of
  \<^verbatim>\<open>get_descendants\<close> on the other.
\<close>

datatype deps = ListOf "string list" | Generator "string cc_gen"

definition get_dependencies :: "Sources \<Rightarrow> string \<Rightarrow> deps" where
  "get_dependencies src filename =
     (if is_template src filename then ListOf [filename]
      else if is_partial filename \<or> is_data src filename
        then Generator (get_descendants (dep_graph src) filename)
      else if is_static src filename then ListOf [filename]
      else ListOf [])"

text \<open>Iterating what \<^verbatim>\<open>get_dependencies\<close> returned, to the end.\<close>

definition iterate_deps :: "string set_order \<Rightarrow> deps \<Rightarrow> (string list \<times> error option) option" where
  "iterate_deps ord d =
     (case d of
        ListOf xs \<Rightarrow> Some (xs, None)
      | Generator gen \<Rightarrow> iterate ord gen [])"

text \<open>
  \<^verbatim>\<open>get_file_dep\<close>. The reference extractor \<^verbatim>\<open>find_jinja_deps\<close> reads and parses the file with
  Jinja2; it is a parameter, and may fail with an exception of its own.
\<close>

datatype failure = GraphError error | ExtractorError | PathError error

definition get_file_dep ::
  "(string \<Rightarrow> string set option) \<Rightarrow> Sources \<Rightarrow> string \<Rightarrow> string set option" where
  "get_file_dep find_jinja_deps src filename =
     (case find_jinja_deps filename of
        None \<Rightarrow> None
      | Some jinja_deps \<Rightarrow>
          (let extra = (case extra_deps src of
                          None \<Rightarrow> []
                        | Some m \<Rightarrow> (case m filename of None \<Rightarrow> [] | Some ds \<Rightarrow> ds))
           in Some (jinja_deps \<union> set extra)))"

text \<open>
  \<^verbatim>\<open>update_dep_graph\<close>: the argument \<^verbatim>\<open>self.get_file_dep(filename)\<close> is evaluated first, so
  an extractor failure leaves the graph untouched.
\<close>

definition update_dep_graph ::
  "string set_order \<Rightarrow> (string \<Rightarrow> string set option) \<Rightarrow> Sources \<Rightarrow> string \<Rightarrow>
   failure option \<times> Sources" where
  "update_dep_graph ord find_jinja_deps src filename =
     (case get_file_dep find_jinja_deps src filename of
        None \<Rightarrow> (Some ExtractorError, src)
      | Some new_parents \<Rightarrow>
          (case update ord (dep_graph src) filename new_parents of
             (None, g) \<Rightarrow> (None, src\<lparr>dep_graph := g\<rparr>)
           | (Some e, g) \<Rightarrow> (Some (GraphError e), src\<lparr>dep_graph := g\<rparr>)))"

section \<open>The change reactor (reloader.py)\<close>

text \<open>
  What the reloader asks of the site is recorded as a list of effects, oldest first:
  \<^verbatim>\<open>copy_static\<close> with its list of files, and one \<^verbatim>\<open>render_template\<close> for each name that
  \<^verbatim>\<open>render_templates\<close> takes from its argument. Copying and rendering themselves are outside
  the model and taken to succeed. The file system is a parameter: \<open>isfile\<close> is
  \<^verbatim>\<open>os.path.isfile\<close> and \<open>relpath\<close> is \<^verbatim>\<open>os.path.relpath\<close>, which raises \<^verbatim>\<open>ValueError\<close> on
  some arguments (an empty path, for one).
\<close>

datatype effect = CopyStatic "string list" | RenderTemplate string

record Reloader =
  searchpath :: string
  sources :: Sources
  effects :: "effect list"

record filesystem =
  isfile :: "string \<Rightarrow> bool"
  relpath :: "string \<Rightarrow> string \<Rightarrow> error + string"
  find_jinja_deps :: "string \<Rightarrow> string set option"

definition should_handle :: "filesystem \<Rightarrow> Reloader \<Rightarrow> string \<Rightarrow> string \<Rightarrow> bool" where
  "should_handle fs r event_type filename =
     ((event_type = ''modified'' \<or> event_type = ''created'') \<and>
      startswith filename (searchpath r) \<and>
      isfile fs filename)"

text \<open>
  \<^verbatim>\<open>event_handler\<close>. The result is \<open>None\<close> when the handler does not return; otherwise the
  exception it raised, if any, and the reloader as the handler left it. The first statement,
  \<^verbatim>\<open>filename = os.path.relpath(src_path, self.searchpath)\<close>, runs before \<^verbatim>\<open>should_handle\<close>
  is asked, so its exception escapes for every event.
  \<^verbatim>\<open>filter(self.sources.is_template, ...)\<close> keeps, of the names its argument produces, those
  that are templates; in Python 3 it does so one name at a time, as \<^verbatim>\<open>render_templates\<close> asks
  for them, so the names rendered before an exception are the templates among the names
  produced before it.
\<close>

definition event_handler ::
  "string set_order \<Rightarrow> filesystem \<Rightarrow> Reloader \<Rightarrow> string \<Rightarrow> string \<Rightarrow>
   (failure option \<times> Reloader) option" where
  "event_handler ord fs r event_type src_path =
     (case relpath fs src_path (searchpath r) of
        Inl e \<Rightarrow> Some (Some (PathError e), r)
      | Inr filename \<Rightarrow>
          if should_handle fs r event_type src_path then
            if is_static (sources r) filename
              then Some (None, r\<lparr>effects := effects r @ [CopyStatic [filename]]\<rparr>)
            else if is_ignored filename then Some (None, r)
            else
              (case update_dep_graph ord (find_jinja_deps fs) (sources r) filename of
                 (Some e, src) \<Rightarrow> Some (Some e, r\<lparr>sources := src\<rparr>)
               | (None, src) \<Rightarrow>
                   if is_template src filename
                     then Some (None, r\<lparr>sources := src,
                                         effects := effects r @ [RenderTemplate filename]\<rparr>)
                   else
                     (case iterate_deps ord (get_dependencies src filename) of
                        None \<Rightarrow> None
                      | Some (names, e) \<Rightarrow>
                          Some (map_option GraphError e,
                                r\<lparr>sources := src,
                                  effects := effects r @
                                    map RenderTemplate (filter (is_template src) names)\<rparr>)))
          else Some (None, r))"

section \<open>Vocabulary of the proofs\<close>

text \<open>
  The child sets after a loop of \<^verbatim>\<open>update\<close> or \<^verbatim>\<open>from_parents\<close> has run to its end: \<open>v\<close>
  taken out of, or put into, the child set of every vertex of \<open>ps\<close>.
\<close>

definition without :: "'v \<Rightarrow> 'v set \<Rightarrow> 'v adjacency \<Rightarrow> 'v adjacency" where
  "without v ps ch = (\<lambda>p. if p \<in> ps then map_option (\<lambda>s. s - {v}) (ch p) else ch p)"

definition with_child :: "'v \<Rightarrow> 'v set \<Rightarrow> 'v adjacency \<Rightarrow> 'v adjacency" where
  "with_child v ps ch = (\<lambda>p. if p \<in> ps then map_option (insert v) (ch p) else ch p)"

text \<open>Two child mappings with the same keys whose child sets differ in the vertex \<open>v\<close> at most.\<close>

definition same_but :: "'v \<Rightarrow> 'v adjacency \<Rightarrow> 'v adjacency \<Rightarrow> bool" where
  "same_but v ch ch' =
     (\<forall>p. (case ch p of
              None \<Rightarrow> ch' p = None
            | Some s \<Rightarrow> (case ch' p of None \<Rightarrow> False | Some s' \<Rightarrow> s' - {v} = s - {v})))"

text \<open>
  The child sets after the outer loop of \<^verbatim>\<open>from_parents\<close> has gone through the files \<open>fs\<close>:
  each child set has gained the files of \<open>fs\<close> that name its vertex as a parent.
\<close>

definition linked :: "'v adjacency \<Rightarrow> 'v set \<Rightarrow> 'v adjacency \<Rightarrow> 'v adjacency" where
  "linked ps fs ch =
     (\<lambda>d. map_option (\<lambda>s. s \<union> {f \<in> fs. \<exists>P. ps f = Some P \<and> d \<in> P}) (ch d))"

text \<open>
  The graphs that a successful \<^verbatim>\<open>from_parents\<close> followed by successful calls of \<^verbatim>\<open>update\<close>
  can produce, and those among them where every \<^verbatim>\<open>update\<close> was of a vertex that was a key.
\<close>

inductive built :: "'v set_order \<Rightarrow> 'v DepGraph \<Rightarrow> bool" for ord :: "'v set_order" where
  build: "finite (dom ps) \<Longrightarrow> (\<And>v P. ps v = Some P \<Longrightarrow> finite P) \<Longrightarrow>
          from_parents ord ps = Inr g \<Longrightarrow> built ord g"
| updated: "built ord g \<Longrightarrow> finite new_parents \<Longrightarrow>
            update ord g v new_parents = (None, g') \<Longrightarrow> built ord g'"

inductive built_known :: "'v set_order \<Rightarrow> 'v DepGraph \<Rightarrow> bool" for ord :: "'v set_order" where
  build_known: "finite (dom ps) \<Longrightarrow> (\<And>v P. ps v = Some P \<Longrightarrow> finite P) \<Longrightarrow>
          from_parents ord ps = Inr g \<Longrightarrow> built_known ord g"
| updated_known: "built_known ord g \<Longrightarrow> finite new_parents \<Longrightarrow> v \<in> dom (parents g) \<Longrightarrow>
            update ord g v new_parents = (None, g') \<Longrightarrow> built_known ord g'"

text \<open>The edge relation of the child mapping: \<open>(u, v)\<close> when \<open>v\<close> is in \<^verbatim>\<open>children[u]\<close>.\<close>

definition child_edges :: "'v adjacency \<Rightarrow> ('v \<times> 'v) set" where
  "child_edges adjacency = {(u, v). \<exists>s. adjacency u = Some s \<and> v \<in> s}"

text \<open>
  The state of a suspended traversal from \<open>start\<close> that has yielded the list \<open>acc\<close>: the
  vertices yielded are the vertices seen (less \<open>start\<close>) and the pending \<open>child\<close>; all of them
  are reachable; and every child of a seen vertex is seen, pending or still on the stack.
\<close>

definition reachable :: "'v adjacency \<Rightarrow> 'v \<Rightarrow> 'v set" where
  "reachable adjacency start = {v. (start, v) \<in> (child_edges adjacency)\<^sup>*}"

definition on_stack :: "'v list list \<Rightarrow> 'v set" where
  "on_stack stack = \<Union> (set ` set stack)"

definition dfs_inv ::
  "'v adjacency \<Rightarrow> 'v \<Rightarrow> 'v set \<Rightarrow> 'v list list \<Rightarrow> 'v \<Rightarrow> 'v list \<Rightarrow> bool" where
  "dfs_inv adjacency start seen stack child acc =
     (start \<in> seen \<and> child \<notin> seen \<and> distinct acc \<and>
      set acc = insert child (seen - {start}) \<and>
      insert child (seen \<union> on_stack stack) \<subseteq> reachable adjacency start \<and>
      child_edges adjacency `` seen \<subseteq> insert child (seen \<union> on_stack stack))"

text \<open>
  Shorthand for the position of an event in \<^verbatim>\<open>event_handler\<close>. \<open>handles\<close>: \<^verbatim>\<open>relpath\<close> has
  returned \<open>filename\<close> and \<^verbatim>\<open>should_handle\<close> has accepted the event. \<open>template_or_data_event\<close>:
  moreover the file is neither static nor ignored, so the handler is in its last branch,
  which its comment describes: the changed file is a (maybe partial) template or a data file.
\<close>

definition handles :: "filesystem \<Rightarrow> Reloader \<Rightarrow> string \<Rightarrow> string \<Rightarrow> string \<Rightarrow> bool" where
  "handles fs r event_type src_path filename =
     (relpath fs src_path (searchpath r) = Inr filename \<and>
      should_handle fs r event_type src_path)"

definition template_or_data_event ::
  "filesystem \<Rightarrow> Reloader \<Rightarrow> string \<Rightarrow> string \<Rightarrow> string \<Rightarrow> bool" where
  "template_or_data_event fs r event_type src_path filename =
     (handles fs r event_type src_path filename \<and>
      \<not> is_static (sources r) filename \<and> \<not> is_ignored filename)"

section \<open>The classification of the specification\<close>

text \<open>
  The source has no function that assigns a role. This one follows the words of the
  specification, section 4.2: the five roles, assigned by strict precedence, the first
  predicate that holds winning. It is compared below with what the code does.
\<close>

datatype role = Partial | Ignored | Static | Data | Template

definition spec_role :: "Sources \<Rightarrow> string \<Rightarrow> role" where
  "spec_role src path =
     (if is_partial path then Partial
      else if is_ignored path then Ignored
      else if is_static src path then Static
      else if is_data src path then Data
      else Template)"

section \<open>Example sites\<close>

text \<open>A page that extends a base partial, as \<^verbatim>\<open>make_dep_graph\<close> builds it.\<close>

definition site_parents :: "string adjacency" where
  "site_parents = [''page.html'' \<mapsto> {''_base.html''}, ''_base.html'' \<mapsto> {}]"

definition site_graph :: "string DepGraph" where
  "site_graph = \<lparr>parents = site_parents,
                 children = [''page.html'' \<mapsto> {}, ''_base.html'' \<mapsto> {''page.html''}]\<rparr>"

text \<open>Two partials that include each other.\<close>

definition cycle_graph :: "string DepGraph" where
  "cycle_graph = \<lparr>parents = [''a'' \<mapsto> {''b''}, ''b'' \<mapsto> {''a''}],
                  children = [''a'' \<mapsto> {''b''}, ''b'' \<mapsto> {''a''}]\<rparr>"

text \<open>A page, the layout partial it extends, and the base partial the layout extends.\<close>

definition chain_graph :: "string DepGraph" where
  "chain_graph =
     \<lparr>parents = [''page.html'' \<mapsto> {''_layout.html''}, ''_layout.html'' \<mapsto> {''_base.html''},
                 ''_base.html'' \<mapsto> {}],
      children = [''page.html'' \<mapsto> {}, ''_layout.html'' \<mapsto> {''page.html''},
                  ''_base.html'' \<mapsto> {''_layout.html''}]\<rparr>"

definition example_sources :: Sources where
  "example_sources =
     \<lparr>staticpaths = Some [''static''], datapaths = Some [''data''], extra_deps = None,
      dep_graph = chain_graph\<rparr>"

definition example_reloader :: Reloader where
  "example_reloader = \<lparr>searchpath = ''/site'', sources = example_sources, effects = []\<rparr>"

text \<open>
  A file system where every path is a regular file, every path handed to \<open>relpath\<close> is
  empty or lies under the start directory, and every file references what the graph says it
  does.
\<close>

definition example_fs :: filesystem where
  "example_fs =
     \<lparr>isfile = (\<lambda>p. True),
      relpath = (\<lambda>p start. if p = [] then Inl ValueError else Inr (drop (length start + 1) p)),
      find_jinja_deps = (\<lambda>f. Some (old_parents_of chain_graph f))\<rparr>"

text \<open>
  The same file system with an extractor that fails on every file, and with one that finds
  in every file a reference to a partial the graph has not seen.
\<close>

definition failing_fs :: filesystem where
  "failing_fs = example_fs\<lparr>find_jinja_deps := (\<lambda>f. None)\<rparr>"

definition growing_fs :: filesystem where
  "growing_fs = example_fs\<lparr>find_jinja_deps := (\<lambda>f. Some {''_new.html''})\<rparr>"

text \<open>
  A site with the base partial alone, and the graph after a template \<^verbatim>\<open>new.html\<close> that extends
  the base has been created and its creation handled by \<^verbatim>\<open>update\<close>.
\<close>

definition base_graph :: "string DepGraph" where
  "base_graph = \<lparr>parents = [''_base.html'' \<mapsto> {}], children = [''_base.html'' \<mapsto> {}]\<rparr>"

definition grown_graph :: "string DepGraph" where
  "grown_graph = \<lparr>parents = [''_base.html'' \<mapsto> {}, ''new.html'' \<mapsto> {''_base.html''}],
                  children = [''_base.html'' \<mapsto> {''new.html''}]\<rparr>"

section \<open>The two loops of update\<close>

lemma iteration_order_path_order: "iteration_order path_order"
  by (simp add: iteration_order_def path_order_def)

lemma iteration_orderD:
  "iteration_order ord \<Longrightarrow> finite S \<Longrightarrow> set (ord S) = S \<and> distinct (ord S)"
  by (simp add: iteration_order_def)

lemma remove_lost_ok:
  "distinct ps \<Longrightarrow> \<forall>p\<in>set ps. \<exists>s. ch p = Some s \<and> v \<in> s \<Longrightarrow>
   remove_lost v ch ps = (None, without v (set ps) ch)"
proof (induction ps arbitrary: ch)
  case Nil
  show ?case by (simp add: without_def)
next
  case (Cons p ps)
  from Cons.prems obtain s where s: "ch p = Some s" "v \<in> s" by auto
  let ?ch = "ch(p \<mapsto> s - {v})"
  have d: "distinct ps" using Cons.prems by simp
  have "\<forall>q\<in>set ps. \<exists>t. ?ch q = Some t \<and> v \<in> t" using Cons.prems by auto
  then have "remove_lost v ?ch ps = (None, without v (set ps) ?ch)"
    by (rule Cons.IH[OF d])
  moreover have "without v (set ps) ?ch = without v (set (p # ps)) ch"
    using Cons.prems s by (auto simp: without_def fun_eq_iff)
  ultimately show ?case using s by simp
qed

lemma remove_lost_fails:
  "\<not> (\<forall>p\<in>set ps. \<exists>s. ch p = Some s \<and> v \<in> s) \<Longrightarrow> distinct ps \<Longrightarrow> fst (remove_lost v ch ps) = Some KeyError"
proof (induction ps arbitrary: ch)
  case Nil
  then show ?case by simp
next
  case (Cons p ps)
  show ?case
  proof (cases "\<exists>s. ch p = Some s \<and> v \<in> s")
    case False
    then show ?thesis by (auto split: option.splits)
  next
    case True
    then obtain s where s: "ch p = Some s" "v \<in> s" by auto
    let ?ch = "ch(p \<mapsto> s - {v})"
    have d: "distinct ps" using Cons.prems by simp
    have "\<not> (\<forall>q\<in>set ps. \<exists>t. ?ch q = Some t \<and> v \<in> t)" using Cons.prems s by auto
    then have "fst (remove_lost v ?ch ps) = Some KeyError" by (rule Cons.IH[OF _ d])
    then show ?thesis using s by simp
  qed
qed

lemma add_new_ok:
  "set ps \<subseteq> dom ch \<Longrightarrow> add_new v ch ps = (None, with_child v (set ps) ch)"
proof (induction ps arbitrary: ch)
  case Nil
  show ?case by (simp add: with_child_def)
next
  case (Cons p ps)
  from Cons.prems obtain s where s: "ch p = Some s" by auto
  let ?ch = "ch(p \<mapsto> insert v s)"
  have "set ps \<subseteq> dom ?ch" using Cons.prems by auto
  then have "add_new v ?ch ps = (None, with_child v (set ps) ?ch)" by (rule Cons.IH)
  moreover have "with_child v (set ps) ?ch = with_child v (set (p # ps)) ch"
    using s by (auto simp: with_child_def fun_eq_iff)
  ultimately show ?case using s by simp
qed

lemma add_new_fails:
  "\<not> set ps \<subseteq> dom ch \<Longrightarrow> fst (add_new v ch ps) = Some KeyError"
proof (induction ps arbitrary: ch)
  case Nil
  then show ?case by simp
next
  case (Cons p ps)
  show ?case
  proof (cases "ch p")
    case None
    then show ?thesis by simp
  next
    case (Some s)
    let ?ch = "ch(p \<mapsto> insert v s)"
    have "\<not> set ps \<subseteq> dom ?ch" using Cons.prems Some by auto
    then have "fst (add_new v ?ch ps) = Some KeyError" by (rule Cons.IH)
    then show ?thesis using Some by simp
  qed
qed

lemma dom_without: "dom (without v ps ch) = dom ch"
  by (auto simp: without_def dom_def)

lemma update_ok:
  assumes ord: "iteration_order ord" and fin: "finite new_parents" "finite (old_parents_of g v)"
    and lost: "\<forall>p\<in>old_parents_of g v - new_parents. \<exists>s. children g p = Some s \<and> v \<in> s"
    and new: "new_parents - old_parents_of g v \<subseteq> dom (children g)"
    and ne: "new_parents \<noteq> old_parents_of g v"
  shows "update ord g v new_parents =
     (None, g\<lparr>children := with_child v (new_parents - old_parents_of g v)
                            (without v (old_parents_of g v - new_parents) (children g)),
              parents := (parents g)(v \<mapsto> new_parents)\<rparr>)"
proof -
  let ?old = "old_parents_of g v"
  have l: "set (ord (?old - new_parents)) = ?old - new_parents" "distinct (ord (?old - new_parents))"
    using iteration_orderD[OF ord, of "?old - new_parents"] fin by auto
  have n: "set (ord (new_parents - ?old)) = new_parents - ?old"
    using iteration_orderD[OF ord, of "new_parents - ?old"] fin by auto
  have 1: "remove_lost v (children g) (ord (?old - new_parents)) =
          (None, without v (?old - new_parents) (children g))"
    using remove_lost_ok[of "ord (?old - new_parents)" "children g" v] l lost by simp
  have 2: "add_new v (without v (?old - new_parents) (children g)) (ord (new_parents - ?old)) =
          (None, with_child v (new_parents - ?old) (without v (?old - new_parents) (children g)))"
    using add_new_ok[of "ord (new_parents - ?old)" "without v (?old - new_parents) (children g)" v]
      n new by (simp add: dom_without)
  show ?thesis using ne by (simp add: update_def Let_def 1 2)
qed

lemma update_fails:
  assumes ord: "iteration_order ord" and fin: "finite new_parents" "finite (old_parents_of g v)"
    and ne: "new_parents \<noteq> old_parents_of g v"
    and bad: "\<not> (\<forall>p\<in>old_parents_of g v - new_parents. \<exists>s. children g p = Some s \<and> v \<in> s)
              \<or> \<not> new_parents - old_parents_of g v \<subseteq> dom (children g)"
  shows "fst (update ord g v new_parents) = Some KeyError"
proof -
  let ?old = "old_parents_of g v"
  have l: "set (ord (?old - new_parents)) = ?old - new_parents" "distinct (ord (?old - new_parents))"
    using iteration_orderD[OF ord, of "?old - new_parents"] fin by auto
  have n: "set (ord (new_parents - ?old)) = new_parents - ?old"
    using iteration_orderD[OF ord, of "new_parents - ?old"] fin by auto
  show ?thesis
  proof (cases "\<forall>p\<in>?old - new_parents. \<exists>s. children g p = Some s \<and> v \<in> s")
    case False
    then have "fst (remove_lost v (children g) (ord (?old - new_parents))) = Some KeyError"
      using remove_lost_fails[of "ord (?old - new_parents)" "children g" v] l by simp
    then show ?thesis using ne
      by (auto simp: update_def Let_def split: prod.splits option.splits)
  next
    case True
    then have 1: "remove_lost v (children g) (ord (?old - new_parents)) =
          (None, without v (?old - new_parents) (children g))"
      using remove_lost_ok[of "ord (?old - new_parents)" "children g" v] l by simp
    from True bad have "\<not> new_parents - ?old \<subseteq> dom (children g)" by simp
    then have "fst (add_new v (without v (?old - new_parents) (children g)) (ord (new_parents - ?old))) = Some KeyError"
      using add_new_fails[of "ord (new_parents - ?old)" "without v (?old - new_parents) (children g)" v] n
      by (simp add: dom_without)
    then show ?thesis using ne 1
      by (auto simp: update_def Let_def split: prod.splits option.splits)
  qed
qed

section \<open>What a failed update leaves behind\<close>

lemma same_but_refl: "same_but v ch ch"
  by (simp add: same_but_def split: option.splits)

lemma same_but_trans: "same_but v a b \<Longrightarrow> same_but v b c \<Longrightarrow> same_but v a c"
  unfolding same_but_def
proof (intro allI)
  fix p
  assume ab: "\<forall>p. case a p of None \<Rightarrow> b p = None
             | Some s \<Rightarrow> (case b p of None \<Rightarrow> False | Some s' \<Rightarrow> s' - {v} = s - {v})"
    and bc: "\<forall>p. case b p of None \<Rightarrow> c p = None
             | Some s \<Rightarrow> (case c p of None \<Rightarrow> False | Some s' \<Rightarrow> s' - {v} = s - {v})"
  from ab[rule_format, of p] bc[rule_format, of p]
  show "case a p of None \<Rightarrow> c p = None
             | Some s \<Rightarrow> (case c p of None \<Rightarrow> False | Some s' \<Rightarrow> s' - {v} = s - {v})"
    by (auto split: option.splits)
qed

lemma same_but_remove: "ch p = Some s \<Longrightarrow> same_but v ch (ch(p \<mapsto> s - {v}))"
  by (auto simp: same_but_def split: option.splits)

lemma same_but_insert: "ch p = Some s \<Longrightarrow> same_but v ch (ch(p \<mapsto> insert v s))"
  by (auto simp: same_but_def split: option.splits)

lemma remove_lost_same_but: "same_but v ch (snd (remove_lost v ch ps))"
proof (induction ps arbitrary: ch)
  case Nil
  show ?case by (simp add: same_but_refl)
next
  case (Cons p ps)
  show ?case
  proof (cases "ch p")
    case None
    then show ?thesis by (simp add: same_but_refl)
  next
    case (Some s)
    show ?thesis
    proof (cases "v \<in> s")
      case True
      have a: "same_but v ch (ch(p \<mapsto> s - {v}))"
        using Some by (rule same_but_remove)
      have b: "same_but v (ch(p \<mapsto> s - {v})) (snd (remove_lost v (ch(p \<mapsto> s - {v})) ps))"
        by (rule Cons.IH)
      have "same_but v ch (snd (remove_lost v (ch(p \<mapsto> s - {v})) ps))"
        using a b by (rule same_but_trans)
      then show ?thesis using Some True by simp
    next
      case False
      then show ?thesis using Some by (simp add: same_but_refl)
    qed
  qed
qed

lemma add_new_same_but: "same_but v ch (snd (add_new v ch ps))"
proof (induction ps arbitrary: ch)
  case Nil
  show ?case by (simp add: same_but_refl)
next
  case (Cons p ps)
  show ?case
  proof (cases "ch p")
    case None
    then show ?thesis by (simp add: same_but_refl)
  next
    case (Some s)
    have a: "same_but v ch (ch(p \<mapsto> insert v s))"
      using Some by (rule same_but_insert)
    have b: "same_but v (ch(p \<mapsto> insert v s)) (snd (add_new v (ch(p \<mapsto> insert v s)) ps))"
      by (rule Cons.IH)
    have "same_but v ch (snd (add_new v (ch(p \<mapsto> insert v s)) ps))"
      using a b by (rule same_but_trans)
    then show ?thesis using Some by simp
  qed
qed

lemma remove_lost_error: "fst (remove_lost v ch ps) = Some e \<Longrightarrow> e = KeyError"
  by (induction ps arbitrary: ch) (auto split: option.splits if_splits)

lemma add_new_error: "fst (add_new v ch ps) = Some e \<Longrightarrow> e = KeyError"
  by (induction ps arbitrary: ch) (auto split: option.splits if_splits)

lemma update_unfold:
  "update ord g v N =
     (if N = old_parents_of g v then (None, g)
      else let r1 = remove_lost v (children g) (ord (old_parents_of g v - N)) in
        if fst r1 \<noteq> None then (fst r1, g\<lparr>children := snd r1\<rparr>)
        else let r2 = add_new v (snd r1) (ord (N - old_parents_of g v)) in
          if fst r2 \<noteq> None then (fst r2, g\<lparr>children := snd r2\<rparr>)
          else (None, g\<lparr>children := snd r2, parents := (parents g)(v \<mapsto> N)\<rparr>))"
  by (simp add: update_def Let_def split: prod.splits option.splits)

lemma update_children_same_but: "same_but v (children g) (children (snd (update ord g v N)))"
proof -
  let ?old = "old_parents_of g v"
  let ?r1 = "remove_lost v (children g) (ord (?old - N))"
  let ?r2 = "add_new v (snd ?r1) (ord (N - ?old))"
  have 1: "same_but v (children g) (snd ?r1)" by (rule remove_lost_same_but)
  have "same_but v (snd ?r1) (snd ?r2)" by (rule add_new_same_but)
  with 1 have 2: "same_but v (children g) (snd ?r2)" by (rule same_but_trans)
  show ?thesis using 1 2 by (simp add: update_unfold Let_def same_but_refl)
qed

lemma update_failed_parents:
  assumes "fst (update ord g v N) = Some e"
  shows "parents (snd (update ord g v N)) = parents g \<and> e = KeyError"
proof -
  let ?old = "old_parents_of g v"
  let ?r1 = "remove_lost v (children g) (ord (?old - N))"
  let ?r2 = "add_new v (snd ?r1) (ord (N - ?old))"
  have 1: "fst ?r1 = Some e \<Longrightarrow> e = KeyError" by (rule remove_lost_error)
  have 2: "fst ?r2 = Some e \<Longrightarrow> e = KeyError" by (rule add_new_error)
  show ?thesis using assms 1 2
    by (simp add: update_unfold Let_def split: if_splits)
qed

section \<open>Example runs\<close>

lemma path_order_simps:
  "path_order {} = []" "path_order {x} = [x]"
  by (simp_all add: path_order_def)

lemma I1_site_graph: "I1 site_graph"
  by (auto simp: I1_def site_graph_def site_parents_def split: if_splits)

lemma failed_run:
  "update path_order site_graph ''page.html'' {''_new.html''} =
     (Some KeyError, site_graph\<lparr>children := [''page.html'' \<mapsto> {}, ''_base.html'' \<mapsto> {}]\<rparr>)"
  by (simp add: update_def old_parents_of_def site_graph_def site_parents_def path_order_simps
      insert_Diff_if)

section \<open>Claims about update\<close>

lemma I1_lost:
  "I1 g \<Longrightarrow> \<forall>p\<in>old_parents_of g v - N. \<exists>s. children g p = Some s \<and> v \<in> s"
  by (auto simp: I1_def old_parents_of_def split: option.splits)

text \<open>
  C1 (as amended). \<^verbatim>\<open>update(v, new_parents)\<close> tolerates a vertex \<open>v\<close> that is not yet a key: its
  old parents are then the empty set. It creates no entry for a member of \<^verbatim>\<open>new_parents\<close>
  that is not a key. On a graph that satisfies I1 the call returns exactly when every vertex
  that it adds to the parents of \<open>v\<close> is already a key of \<^verbatim>\<open>children\<close>; otherwise it raises.
\<close>

theorem update_succeeds_iff:
  assumes "iteration_order ord" and "finite new_parents" and "finite (old_parents_of g v)"
    and "I1 g"
  shows "fst (update ord g v new_parents) = None \<longleftrightarrow>
         new_parents - old_parents_of g v \<subseteq> dom (children g)"
proof (cases "new_parents = old_parents_of g v")
  case True
  then show ?thesis by (simp add: update_def)
next
  case False
  show ?thesis
  proof
    assume ok: "fst (update ord g v new_parents) = None"
    show "new_parents - old_parents_of g v \<subseteq> dom (children g)"
    proof (rule ccontr)
      assume "\<not> new_parents - old_parents_of g v \<subseteq> dom (children g)"
      then have "fst (update ord g v new_parents) = Some KeyError"
        using update_fails[OF assms(1-3) False] by blast
      with ok show False by simp
    qed
  next
    assume "new_parents - old_parents_of g v \<subseteq> dom (children g)"
    then show "fst (update ord g v new_parents) = None"
      using update_ok[OF assms(1-3) I1_lost[OF assms(4)] _ False] by simp
  qed
qed

theorem update_succeeds_iff_witness:
  "iteration_order path_order \<and> finite {''_base.html''} \<and>
   finite (old_parents_of site_graph ''new.html'') \<and> I1 site_graph \<and>
   old_parents_of site_graph ''new.html'' = {} \<and>
   fst (update path_order site_graph ''new.html'' {''_base.html''}) = None"
proof -
  have o: "old_parents_of site_graph ''new.html'' = {}"
    by (simp add: old_parents_of_def site_graph_def site_parents_def)
  have d: "{''_base.html''} - old_parents_of site_graph ''new.html'' \<subseteq> dom (children site_graph)"
    unfolding o by (simp add: site_graph_def)
  show ?thesis
    using update_succeeds_iff [of path_order "{''_base.html''}" site_graph "''new.html''"]
      iteration_order_path_order I1_site_graph o d by simp
qed

text \<open>
  C1 as stated fails: the reference list of \<^verbatim>\<open>page.html\<close> grows by a partial the graph has not
  seen, and \<^verbatim>\<open>self.children[new_parent]\<close> raises \<^verbatim>\<open>KeyError\<close>.
\<close>

theorem update_unseen_parent_counterexample:
  "''_new.html'' \<notin> dom (children site_graph) \<and>
   fst (update path_order site_graph ''page.html'' {''_base.html'', ''_new.html''}) = Some KeyError"
  by (simp add: update_def old_parents_of_def site_graph_def site_parents_def path_order_simps
      insert_Diff_if)

text \<open>
  C2 (as amended). A call of \<^verbatim>\<open>update\<close> that raises raises \<^verbatim>\<open>KeyError\<close>, and leaves the
  \<^verbatim>\<open>parents\<close> mapping as it was and the \<^verbatim>\<open>children\<close> mapping with the same keys; the child
  sets are as they were except that \<open>v\<close> may have been removed from or added to some of them:
  the edges changed before the exception stay changed.
\<close>

theorem failed_update_state:
  "fst (update ord g v new_parents) = Some e \<Longrightarrow>
   e = KeyError \<and> parents (snd (update ord g v new_parents)) = parents g \<and>
   same_but v (children g) (children (snd (update ord g v new_parents)))"
  using update_failed_parents[of ord g v new_parents e] update_children_same_but[of v g ord new_parents]
  by simp

theorem failed_update_state_witness:
  "fst (update path_order site_graph ''page.html'' {''_new.html''}) = Some KeyError \<and>
   parents (snd (update path_order site_graph ''page.html'' {''_new.html''})) = parents site_graph \<and>
   same_but ''page.html'' (children site_graph)
     (children (snd (update path_order site_graph ''page.html'' {''_new.html''})))"
  using failed_update_state [of path_order site_graph "''page.html''" "{''_new.html''}" KeyError]
  by (simp add: failed_run)

text \<open>
  C2 as stated fails: the first loop has taken \<^verbatim>\<open>page.html\<close> out of the children of
  \<^verbatim>\<open>_base.html\<close> when the second loop raises on the unknown \<^verbatim>\<open>_new.html\<close>.
\<close>

theorem update_not_atomic_counterexample:
  "fst (update path_order site_graph ''page.html'' {''_new.html''}) = Some KeyError \<and>
   children site_graph ''_base.html'' = Some {''page.html''} \<and>
   children (snd (update path_order site_graph ''page.html'' {''_new.html''})) ''_base.html'' = Some {}"
  by (simp add: failed_run) (simp add: site_graph_def)

text \<open>
  C7. \<^verbatim>\<open>update(v, P)\<close> with \<open>P\<close> the current parents of \<open>v\<close> (the empty set when \<open>v\<close> is not a
  key) returns and leaves both mappings of the graph unchanged.
\<close>

theorem update_same_parents_noop: "update ord g v (old_parents_of g v) = (None, g)"
  by (simp add: update_def)

section \<open>The traversal visits what is reachable\<close>

lemma on_stack_simps [simp]:
  "on_stack [] = {}" "on_stack (it # stack) = set it \<union> on_stack stack"
  by (simp_all add: on_stack_def)

lemma cc_loop_cases:
  "(cc_loop adj seen stack = (StopIteration, Finished) \<and> on_stack stack \<subseteq> seen) \<or>
   (\<exists>c stack'. cc_loop adj seen stack = (Yield c, Suspended adj seen stack' c) \<and>
      c \<notin> seen \<and> c \<in> on_stack stack \<and>
      on_stack stack \<subseteq> insert c (seen \<union> on_stack stack') \<and>
      on_stack stack' \<subseteq> on_stack stack)"
proof (induction adj seen stack rule: cc_loop.induct)
  case (1 adjacency seen)
  show ?case by simp
next
  case (2 adjacency seen stack)
  then show ?case by auto
next
  case (3 adjacency seen child it stack)
  show ?case
  proof (cases "child \<in> seen")
    case True
    with 3 show ?thesis by auto
  next
    case False
    then show ?thesis by auto
  qed
qed

lemma closed_reachable:
  assumes "start \<in> X" and "child_edges adj `` X \<subseteq> X"
  shows "reachable adj start \<subseteq> X"
proof
  fix v assume "v \<in> reachable adj start"
  then have "(start, v) \<in> (child_edges adj)\<^sup>*" by (simp add: reachable_def)
  then show "v \<in> X"
    using assms by (induction rule: rtrancl_induct) auto
qed

lemma reachable_step:
  "u \<in> reachable adj start \<Longrightarrow> adj u = Some s \<Longrightarrow> s \<subseteq> reachable adj start"
  by (auto simp: reachable_def child_edges_def intro: rtrancl_into_rtrancl)

lemma reachable_dom:
  assumes "start \<in> dom adj" and "\<And>u s. adj u = Some s \<Longrightarrow> s \<subseteq> dom adj"
  shows "reachable adj start \<subseteq> dom adj"
proof (rule closed_reachable)
  show "start \<in> dom adj" by fact
  show "child_edges adj `` dom adj \<subseteq> dom adj"
    using assms(2) by (auto simp: child_edges_def)
qed

lemma iterate_suspended:
  assumes ord: "iteration_order ord" and fin: "finite (dom adj)"
    and closed: "\<And>u s. adj u = Some s \<Longrightarrow> s \<subseteq> dom adj"
    and start: "start \<in> dom adj"
  shows "dfs_inv adj start seen stack c acc \<Longrightarrow>
         \<exists>ys. iterate ord (Suspended adj seen stack c) acc = Some (ys, None) \<and>
              distinct ys \<and> set ys = reachable adj start - {start}"
proof (induction "card (dom adj - seen)" arbitrary: seen stack c acc rule: less_induct)
  case less
  note inv = less.prems
  have s_in: "start \<in> seen" and c_new: "c \<notin> seen" and dist: "distinct acc"
    and acc: "set acc = insert c (seen - {start})"
    and reach: "insert c (seen \<union> on_stack stack) \<subseteq> reachable adj start"
    and succ: "child_edges adj `` seen \<subseteq> insert c (seen \<union> on_stack stack)"
    using inv by (simp_all add: dfs_inv_def)
  have c_reach: "c \<in> reachable adj start" using reach by simp
  have "reachable adj start \<subseteq> dom adj" using start closed by (rule reachable_dom)
  with c_reach have c_dom: "c \<in> dom adj" by blast
  then obtain s where s: "adj c = Some s" by auto
  have "finite s" using closed[OF s] fin by (rule finite_subset)
  then have ords: "set (ord s) = s" using ord by (simp add: iteration_order_def)
  have s_reach: "s \<subseteq> reachable adj start" using c_reach s by (rule reachable_step)
  have c_succ: "child_edges adj `` {c} = s" using s by (auto simp: child_edges_def)
  let ?seen = "insert c seen"
  let ?stack = "ord s # stack"
  have next_eq: "cc_next ord (Suspended adj seen stack c) = cc_loop adj ?seen ?stack"
    using s by simp
  have succ': "child_edges adj `` ?seen \<subseteq> ?seen \<union> on_stack ?stack"
    using succ c_succ ords by auto
  from cc_loop_cases[of adj ?seen ?stack] show ?case
  proof (elim disjE conjE exE)
    assume stop: "cc_loop adj ?seen ?stack = (StopIteration, Finished)"
      and sub: "on_stack ?stack \<subseteq> ?seen"
    have it: "iterate ord (Suspended adj seen stack c) acc = Some (acc, None)"
      by (subst iterate.simps) (simp add: next_eq stop del: cc_next.simps)
    have "child_edges adj `` ?seen \<subseteq> ?seen" using succ' sub by blast
    with s_in have "reachable adj start \<subseteq> ?seen" by (intro closed_reachable) auto
    moreover have "?seen \<subseteq> reachable adj start" using reach by auto
    ultimately have "reachable adj start = ?seen" by blast
    then have "set acc = reachable adj start - {start}" using acc s_in c_new by auto
    with it dist show ?thesis by simp
  next
    fix c' stack'
    assume yield: "cc_loop adj ?seen ?stack = (Yield c', Suspended adj ?seen stack' c')"
      and c'_new: "c' \<notin> ?seen" and c'_in: "c' \<in> on_stack ?stack"
      and cover: "on_stack ?stack \<subseteq> insert c' (?seen \<union> on_stack stack')"
      and shrink: "on_stack stack' \<subseteq> on_stack ?stack"
    have it: "iterate ord (Suspended adj seen stack c) acc =
              iterate ord (Suspended adj ?seen stack' c') (acc @ [c'])"
      by (subst iterate.simps) (simp add: next_eq yield del: cc_next.simps)
    have stack_reach: "on_stack ?stack \<subseteq> reachable adj start"
      using reach s_reach ords by auto
    have inv': "dfs_inv adj start ?seen stack' c' (acc @ [c'])"
      unfolding dfs_inv_def
    proof (intro conjI)
      show "start \<in> ?seen" using s_in by simp
      show "c' \<notin> ?seen" by fact
      show "distinct (acc @ [c'])" using dist acc c'_new by auto
      show "set (acc @ [c']) = insert c' (?seen - {start})"
        using acc s_in c_new by auto
      show "insert c' (?seen \<union> on_stack stack') \<subseteq> reachable adj start"
        using reach stack_reach c'_in shrink by auto
      show "child_edges adj `` ?seen \<subseteq> insert c' (?seen \<union> on_stack stack')"
        using succ' cover by blast
    qed
    have "dom adj - ?seen \<subset> dom adj - seen" using c_dom c_new by auto
    then have "card (dom adj - ?seen) < card (dom adj - seen)"
      using fin by (intro psubset_card_mono) auto
    from less.hyps[OF this inv'] it show ?thesis by simp
  qed
qed

lemma iterate_descendants:
  assumes ord: "iteration_order ord" and fin: "finite (dom adj)"
    and closed: "\<And>u s. adj u = Some s \<Longrightarrow> s \<subseteq> dom adj"
    and start: "start \<in> dom adj"
    and first: "cc_next ord gen = cc_start ord adj start"
  shows "\<exists>ys. iterate ord gen [] = Some (ys, None) \<and>
              distinct ys \<and> set ys = reachable adj start - {start}"
proof -
  from start obtain s where s: "adj start = Some s" by auto
  have "finite s" using closed[OF s] fin by (rule finite_subset)
  then have ords: "set (ord s) = s" using ord by (simp add: iteration_order_def)
  have start_reach: "start \<in> reachable adj start" by (simp add: reachable_def)
  then have s_reach: "s \<subseteq> reachable adj start" using s by (rule reachable_step)
  have c_succ: "child_edges adj `` {start} = s" using s by (auto simp: child_edges_def)
  have next_eq: "cc_next ord gen = cc_loop adj {start} [ord s]"
    using s first by (simp add: cc_start_def)
  from cc_loop_cases[of adj "{start}" "[ord s]"] show ?thesis
  proof (elim disjE conjE exE)
    assume stop: "cc_loop adj {start} [ord s] = (StopIteration, Finished)"
      and sub: "on_stack [ord s] \<subseteq> {start}"
    have it: "iterate ord gen [] = Some ([], None)"
      by (subst iterate.simps) (simp add: next_eq stop del: cc_next.simps)
    have "child_edges adj `` {start} \<subseteq> {start}" using c_succ sub ords by simp
    then have "reachable adj start \<subseteq> {start}" by (intro closed_reachable) auto
    with it show ?thesis by auto
  next
    fix c' stack'
    assume yield: "cc_loop adj {start} [ord s] = (Yield c', Suspended adj {start} stack' c')"
      and c'_new: "c' \<notin> {start}" and c'_in: "c' \<in> on_stack [ord s]"
      and cover: "on_stack [ord s] \<subseteq> insert c' ({start} \<union> on_stack stack')"
      and shrink: "on_stack stack' \<subseteq> on_stack [ord s]"
    have it: "iterate ord gen [] = iterate ord (Suspended adj {start} stack' c') [c']"
      by (subst iterate.simps) (simp add: next_eq yield del: cc_next.simps)
    have inv': "dfs_inv adj start {start} stack' c' [c']"
      unfolding dfs_inv_def
    proof (intro conjI)
      show "start \<in> {start}" by simp
      show "c' \<notin> {start}" by fact
      show "distinct [c']" by simp
      show "set [c'] = insert c' ({start} - {start})" by simp
      show "insert c' ({start} \<union> on_stack stack') \<subseteq> reachable adj start"
        using start_reach s_reach ords c'_in shrink by auto
      show "child_edges adj `` {start} \<subseteq> insert c' ({start} \<union> on_stack stack')"
        using c_succ cover ords by auto
    qed
    from iterate_suspended[OF ord fin closed start inv'] it show ?thesis by simp
  qed
qed

section \<open>Claims about the traversal\<close>

lemma finite_graph_cycle_graph: "finite_graph cycle_graph"
  by (auto simp: finite_graph_def cycle_graph_def split: if_splits)

lemma I2_cycle_graph: "I2 cycle_graph"
  by (auto simp: I2_def cycle_graph_def split: if_splits)

lemma I1_cycle_graph: "I1 cycle_graph"
  by (auto simp: I1_def cycle_graph_def split: if_splits)

lemma cycle_run_a:
  "iterate path_order (get_descendants cycle_graph ''a'') [] = Some ([''b''], None)"
  by (simp add: iterate.simps get_descendants_def connected_components_def cc_start_def
      cycle_graph_def path_order_simps)

lemma cycle_run_b:
  "iterate path_order (get_descendants cycle_graph ''b'') [] = Some ([''a''], None)"
  by (simp add: iterate.simps get_descendants_def connected_components_def cc_start_def
      cycle_graph_def path_order_simps)

text \<open>
  C4. On a graph that satisfies I2 (the closure of the child mapping is all the proof needs;
  I1 is not used) and for a start vertex that is a key, iterating
  \<^verbatim>\<open>get_descendants(start)\<close> ends without an exception, whatever the iteration order of the
  sets and whether or not the graph has cycles or self-loops; the vertices yielded are
  pairwise distinct, and they are exactly the vertices reachable from \<open>start\<close> along child
  edges, \<open>start\<close> itself left out. The witness runs the two-cycle of \<open>a\<close> and \<open>b\<close>.
\<close>

theorem descendants_reachable:
  assumes "iteration_order ord" and "finite_graph g" and "I2 g"
    and "start \<in> dom (children g)"
  shows "\<exists>ys. iterate ord (get_descendants g start) [] = Some (ys, None) \<and>
              distinct ys \<and> set ys = reachable (children g) start - {start}"
proof (rule iterate_descendants)
  show "iteration_order ord" by fact
  show "finite (dom (children g))" using assms(2) by (simp add: finite_graph_def)
  show "start \<in> dom (children g)" by fact
  show "\<And>u s. children g u = Some s \<Longrightarrow> s \<subseteq> dom (children g)"
    using assms(3) by (simp add: I2_def)
  show "cc_next ord (get_descendants g start) = cc_start ord (children g) start"
    by (simp add: get_descendants_def connected_components_def)
qed

theorem descendants_reachable_witness:
  "iteration_order path_order \<and> finite_graph cycle_graph \<and> I1 cycle_graph \<and> I2 cycle_graph \<and>
   ''a'' \<in> dom (children cycle_graph) \<and> ''b'' \<in> dom (children cycle_graph) \<and>
   iterate path_order (get_descendants cycle_graph ''a'') [] = Some ([''b''], None) \<and>
   iterate path_order (get_descendants cycle_graph ''b'') [] = Some ([''a''], None) \<and>
   reachable (children cycle_graph) ''a'' - {''a''} = {''b''} \<and>
   reachable (children cycle_graph) ''b'' - {''b''} = {''a''}"
proof -
  have a: "''a'' \<in> dom (children cycle_graph)" and b: "''b'' \<in> dom (children cycle_graph)"
    by (simp_all add: cycle_graph_def)
  from descendants_reachable [OF iteration_order_path_order finite_graph_cycle_graph
      I2_cycle_graph a]
  have ra: "reachable (children cycle_graph) ''a'' - {''a''} = {''b''}"
    by (simp add: cycle_run_a)
  from descendants_reachable [OF iteration_order_path_order finite_graph_cycle_graph
      I2_cycle_graph b]
  have rb: "reachable (children cycle_graph) ''b'' - {''b''} = {''a''}"
    by (simp add: cycle_run_b)
  show ?thesis
    using iteration_order_path_order finite_graph_cycle_graph I1_cycle_graph I2_cycle_graph
      a b cycle_run_a cycle_run_b ra rb by simp
qed

text \<open>
  C8 (as amended). A direction other than \<^verbatim>\<open>'descendants'\<close> and \<^verbatim>\<open>'ancestors'\<close> is never
  defaulted: the call of \<^verbatim>\<open>connected_components\<close> returns a generator that has not started, and
  the first \<^verbatim>\<open>next\<close> on it raises \<^verbatim>\<open>ValueError\<close> before any vertex is yielded.
\<close>

theorem unknown_direction_raises_on_first_next:
  assumes "direction \<noteq> ''descendants''" and "direction \<noteq> ''ancestors''"
  shows "connected_components g direction start = Fresh g direction start \<and>
         cc_next ord (connected_components g direction start) = (Raise ValueError, Finished) \<and>
         iterate ord (connected_components g direction start) [] = Some ([], Some ValueError)"
  using assms by (simp add: connected_components_def iterate.simps)

theorem unknown_direction_raises_on_first_next_witness:
  "''sideways'' \<noteq> ''descendants'' \<and> ''sideways'' \<noteq> ''ancestors'' \<and>
   cc_next path_order (connected_components cycle_graph ''sideways'' ''a'') =
     (Raise ValueError, Finished) \<and>
   iterate path_order (connected_components cycle_graph ''sideways'' ''a'') [] =
     Some ([], Some ValueError)"
  using unknown_direction_raises_on_first_next [of "''sideways''" cycle_graph "''a''" path_order]
  by (simp add: connected_components_def)

text \<open>
  C8 as stated fails: \<^verbatim>\<open>connected_components\<close> is a generator function, so the call with the
  direction \<^verbatim>\<open>'sideways'\<close> runs none of the body, the \<^verbatim>\<open>raise\<close> included, and returns a
  generator object in its initial state.
\<close>

theorem call_returns_generator_counterexample:
  "connected_components cycle_graph ''sideways'' ''a'' = Fresh cycle_graph ''sideways'' ''a'' \<and>
   connected_components cycle_graph ''sideways'' ''a'' \<noteq> Finished"
  by (simp add: connected_components_def)

text \<open>
  C9. When \<open>start\<close> is not a key of the mapping that is traversed, the first \<^verbatim>\<open>next\<close> on the
  generator raises \<^verbatim>\<open>KeyError\<close>: iterating \<^verbatim>\<open>get_descendants(start)\<close>, or the traversal of the
  ancestors, ends with that exception and not as an empty sequence.
\<close>

theorem unknown_start_raises_KeyError:
  "(children g start = None \<longrightarrow>
      cc_next ord (get_descendants g start) = (Raise KeyError, Finished) \<and>
      iterate ord (get_descendants g start) [] = Some ([], Some KeyError)) \<and>
   (parents g start = None \<longrightarrow>
      cc_next ord (connected_components g ''ancestors'' start) = (Raise KeyError, Finished) \<and>
      iterate ord (connected_components g ''ancestors'' start) [] = Some ([], Some KeyError))"
  by (simp add: get_descendants_def connected_components_def cc_start_def iterate.simps)

theorem unknown_start_raises_KeyError_witness:
  "children site_graph ''new.html'' = None \<and> parents site_graph ''new.html'' = None \<and>
   iterate path_order (get_descendants site_graph ''new.html'') [] = Some ([], Some KeyError) \<and>
   iterate path_order (connected_components site_graph ''ancestors'' ''new.html'') [] =
     Some ([], Some KeyError)"
proof -
  have "children site_graph ''new.html'' = None \<and> parents site_graph ''new.html'' = None"
    by (simp add: site_graph_def site_parents_def)
  then show ?thesis
    using unknown_start_raises_KeyError [of site_graph "''new.html''" path_order] by simp
qed

section \<open>Claims about the classifier and the reactor\<close>

lemma startswith_any_iff: "startswith_any filename paths = (\<exists>p\<in>set paths. prefix p filename)"
  by (induction paths) (auto simp: startswith_def)

lemma is_static_iff:
  "is_static src filename =
     (\<exists>paths. staticpaths src = Some paths \<and> (\<exists>p\<in>set paths. prefix p filename))"
  by (simp add: is_static_def startswith_any_iff split: option.splits)

lemma is_data_iff:
  "is_data src filename =
     (\<exists>paths. datapaths src = Some paths \<and> (\<exists>p\<in>set paths. prefix p filename))"
  by (simp add: is_data_def startswith_any_iff split: option.splits)

text \<open>
  C10. \<^verbatim>\<open>is_static\<close> and \<^verbatim>\<open>is_data\<close> test whether some configured prefix is a prefix of the
  file name as a string of characters: every name \<open>p @ rest\<close> with \<open>p\<close> a configured prefix
  passes, whether or not \<open>rest\<close> starts with a path separator. With the static prefix
  \<^verbatim>\<open>static\<close>, the file \<^verbatim>\<open>staticextra.png\<close> is static.
\<close>

theorem static_and_data_are_prefix_tests:
  "is_static src filename =
     (\<exists>paths. staticpaths src = Some paths \<and> (\<exists>p\<in>set paths. prefix p filename)) \<and>
   is_data src filename =
     (\<exists>paths. datapaths src = Some paths \<and> (\<exists>p\<in>set paths. prefix p filename)) \<and>
   (\<forall>paths p rest. staticpaths src = Some paths \<and> p \<in> set paths \<longrightarrow> is_static src (p @ rest)) \<and>
   (\<forall>paths p rest. datapaths src = Some paths \<and> p \<in> set paths \<longrightarrow> is_data src (p @ rest))"
proof (intro conjI allI impI)
  show "is_static src filename =
     (\<exists>paths. staticpaths src = Some paths \<and> (\<exists>p\<in>set paths. prefix p filename))"
    by (rule is_static_iff)
  show "is_data src filename =
     (\<exists>paths. datapaths src = Some paths \<and> (\<exists>p\<in>set paths. prefix p filename))"
    by (rule is_data_iff)
next
  fix paths p and rest :: string
  assume "staticpaths src = Some paths \<and> p \<in> set paths"
  moreover have "prefix p (p @ rest)" by simp
  ultimately show "is_static src (p @ rest)" unfolding is_static_iff by blast
next
  fix paths p and rest :: string
  assume "datapaths src = Some paths \<and> p \<in> set paths"
  moreover have "prefix p (p @ rest)" by simp
  ultimately show "is_data src (p @ rest)" unfolding is_data_iff by blast
qed

theorem static_and_data_are_prefix_tests_witness:
  "staticpaths example_sources = Some [''static''] \<and> ''static'' \<in> set [''static''] \<and>
   is_static example_sources (''static'' @ ''extra.png'') \<and>
   is_static example_sources ''staticextra.png'' \<and>
   datapaths example_sources = Some [''data''] \<and> ''data'' \<in> set [''data''] \<and>
   is_data example_sources ''database.html''"
proof -
  have s: "staticpaths example_sources = Some [''static'']"
    and d: "datapaths example_sources = Some [''data'']"
    by (simp_all add: example_sources_def)
  have "is_static example_sources (''static'' @ ''extra.png'')"
    using static_and_data_are_prefix_tests [of example_sources "''x''"] s by fastforce
  moreover have "is_data example_sources (''data'' @ ''base.html'')"
    using static_and_data_are_prefix_tests [of example_sources "''x''"] d by fastforce
  ultimately show ?thesis using s d by simp
qed

section \<open>The traversal ends on every finite graph\<close>

lemma same_but_dom: "same_but v ch ch' \<Longrightarrow> dom ch' = dom ch"
proof -
  assume sb: "same_but v ch ch'"
  have "(ch' p = None) = (ch p = None)" for p
    using sb[unfolded same_but_def, rule_format, of p]
    by (cases "ch p"; cases "ch' p") simp_all
  then show ?thesis by (auto simp: dom_def)
qed

lemma update_dom_children: "dom (children (snd (update ord g v N))) = dom (children g)"
  using update_children_same_but[of v g ord N] by (rule same_but_dom)

lemma iterate_suspended_ends:
  assumes fin: "finite (dom adj)"
  shows "c \<notin> seen \<Longrightarrow> \<exists>names e. iterate ord (Suspended adj seen stack c) acc = Some (names, e)"
proof (induction "card (dom adj - seen)" arbitrary: seen stack c acc rule: less_induct)
  case less
  show ?case
  proof (cases "adj c")
    case None
    have "iterate ord (Suspended adj seen stack c) acc = Some (acc, Some KeyError)"
      by (subst iterate.simps) (simp add: None)
    then show ?thesis by blast
  next
    case (Some s)
    let ?seen = "insert c seen"
    let ?stack = "ord s # stack"
    have next_eq: "cc_next ord (Suspended adj seen stack c) = cc_loop adj ?seen ?stack"
      using Some by simp
    from cc_loop_cases[of adj ?seen ?stack] show ?thesis
    proof (elim disjE conjE exE)
      assume stop: "cc_loop adj ?seen ?stack = (StopIteration, Finished)"
      have "iterate ord (Suspended adj seen stack c) acc = Some (acc, None)"
        by (subst iterate.simps) (simp add: next_eq stop del: cc_next.simps)
      then show ?thesis by blast
    next
      fix c' stack'
      assume yield: "cc_loop adj ?seen ?stack = (Yield c', Suspended adj ?seen stack' c')"
        and c'_new: "c' \<notin> ?seen"
      have it: "iterate ord (Suspended adj seen stack c) acc =
                iterate ord (Suspended adj ?seen stack' c') (acc @ [c'])"
        by (subst iterate.simps) (simp add: next_eq yield del: cc_next.simps)
      have "c \<in> dom adj" using Some by auto
      then have "dom adj - ?seen \<subset> dom adj - seen" using less.prems by auto
      then have "card (dom adj - ?seen) < card (dom adj - seen)"
        using fin by (intro psubset_card_mono) auto
      from less.hyps[OF this c'_new] it show ?thesis by simp
    qed
  qed
qed

lemma iterate_start_ends:
  assumes fin: "finite (dom adj)" and first: "cc_next ord gen = cc_start ord adj start"
  shows "\<exists>names e. iterate ord gen [] = Some (names, e)"
proof (cases "adj start")
  case None
  have "iterate ord gen [] = Some ([], Some KeyError)"
    by (subst iterate.simps) (simp add: first cc_start_def None)
  then show ?thesis by blast
next
  case (Some s)
  have next_eq: "cc_next ord gen = cc_loop adj {start} [ord s]"
    using Some first by (simp add: cc_start_def)
  from cc_loop_cases[of adj "{start}" "[ord s]"] show ?thesis
  proof (elim disjE conjE exE)
    assume stop: "cc_loop adj {start} [ord s] = (StopIteration, Finished)"
    have "iterate ord gen [] = Some ([], None)"
      by (subst iterate.simps) (simp add: next_eq stop)
    then show ?thesis by blast
  next
    fix c' stack'
    assume yield: "cc_loop adj {start} [ord s] = (Yield c', Suspended adj {start} stack' c')"
      and c'_new: "c' \<notin> {start}"
    have it: "iterate ord gen [] = iterate ord (Suspended adj {start} stack' c') [c']"
      by (subst iterate.simps) (simp add: next_eq yield)
    from iterate_suspended_ends[OF fin c'_new, of ord stack' "[c']"] it show ?thesis by simp
  qed
qed

lemma iterate_descendants_ends:
  "finite (dom (children g)) \<Longrightarrow>
   \<exists>names e. iterate ord (get_descendants g start) [] = Some (names, e)"
  by (rule iterate_start_ends) (simp_all add: get_descendants_def connected_components_def)

section \<open>The branches of the reactor\<close>

lemma classifier_ignores_graph [simp]:
  "is_static (src\<lparr>dep_graph := g\<rparr>) f = is_static src f"
  "is_data (src\<lparr>dep_graph := g\<rparr>) f = is_data src f"
  "is_template (src\<lparr>dep_graph := g\<rparr>) f = is_template src f"
  by (simp_all add: is_static_def is_data_def is_template_def)

lemma is_template_ignores_graph [simp]:
  "is_template (src\<lparr>dep_graph := g\<rparr>) = is_template src"
  by (simp add: fun_eq_iff)

lemma is_template_iff:
  "is_template src f \<longleftrightarrow>
     \<not> is_partial f \<and> \<not> is_ignored f \<and> \<not> is_static src f \<and> \<not> is_data src f"
  by (simp add: is_template_def)

lemma get_dependencies_else:
  "\<not> is_static src f \<Longrightarrow> \<not> is_ignored f \<Longrightarrow> \<not> is_template src f \<Longrightarrow>
   get_dependencies src f = Generator (get_descendants (dep_graph src) f)"
  by (simp add: get_dependencies_def is_template_def split: if_splits)

lemma update_dep_graph_unfold:
  "update_dep_graph ord fjd src f =
     (case get_file_dep fjd src f of
        None \<Rightarrow> (Some ExtractorError, src)
      | Some N \<Rightarrow>
          (map_option GraphError (fst (update ord (dep_graph src) f N)),
           src\<lparr>dep_graph := snd (update ord (dep_graph src) f N)\<rparr>))"
  by (simp add: update_dep_graph_def split: option.splits prod.splits)

lemma event_handler_else:
  assumes "template_or_data_event fs r event_type src_path filename"
  shows "event_handler ord fs r event_type src_path =
     (case update_dep_graph ord (find_jinja_deps fs) (sources r) filename of
        (Some e, src) \<Rightarrow> Some (Some e, r\<lparr>sources := src\<rparr>)
      | (None, src) \<Rightarrow>
          if is_template src filename
            then Some (None, r\<lparr>sources := src, effects := effects r @ [RenderTemplate filename]\<rparr>)
          else
            (case iterate_deps ord (get_dependencies src filename) of
               None \<Rightarrow> None
             | Some (names, e) \<Rightarrow>
                 Some (map_option GraphError e,
                       r\<lparr>sources := src,
                         effects := effects r @
                           map RenderTemplate (filter (is_template src) names)\<rparr>)))"
  using assms by (simp add: template_or_data_event_def handles_def event_handler_def)

lemma event_handler_extractor_fails:
  assumes "template_or_data_event fs r event_type src_path filename"
    and "get_file_dep (find_jinja_deps fs) (sources r) filename = None"
  shows "event_handler ord fs r event_type src_path = Some (Some ExtractorError, r)"
  using assms(2) by (simp add: event_handler_else[OF assms(1)] update_dep_graph_unfold)

lemma event_handler_update_fails:
  assumes "template_or_data_event fs r event_type src_path filename"
    and "get_file_dep (find_jinja_deps fs) (sources r) filename = Some N"
    and "update ord (dep_graph (sources r)) filename N = (Some e, g')"
  shows "event_handler ord fs r event_type src_path =
           Some (Some (GraphError e), r\<lparr>sources := (sources r)\<lparr>dep_graph := g'\<rparr>\<rparr>)"
  using assms(2,3) by (simp add: event_handler_else[OF assms(1)] update_dep_graph_unfold)

lemma event_handler_template:
  assumes "template_or_data_event fs r event_type src_path filename"
    and "get_file_dep (find_jinja_deps fs) (sources r) filename = Some N"
    and "update ord (dep_graph (sources r)) filename N = (None, g')"
    and "is_template (sources r) filename"
  shows "event_handler ord fs r event_type src_path =
           Some (None, r\<lparr>sources := (sources r)\<lparr>dep_graph := g'\<rparr>,
                          effects := effects r @ [RenderTemplate filename]\<rparr>)"
  using assms(2,3,4) by (simp add: event_handler_else[OF assms(1)] update_dep_graph_unfold)

lemma event_handler_descendants:
  assumes ev: "template_or_data_event fs r event_type src_path filename"
    and dep: "get_file_dep (find_jinja_deps fs) (sources r) filename = Some N"
    and upd: "update ord (dep_graph (sources r)) filename N = (None, g')"
    and nt: "\<not> is_template (sources r) filename"
    and fin: "finite (dom (children (dep_graph (sources r))))"
  shows "\<exists>names x.
           iterate ord (get_descendants g' filename) [] = Some (names, x) \<and>
           iterate_deps ord (get_dependencies ((sources r)\<lparr>dep_graph := g'\<rparr>) filename) =
             Some (names, x) \<and>
           event_handler ord fs r event_type src_path =
             Some (map_option GraphError x,
                   r\<lparr>sources := (sources r)\<lparr>dep_graph := g'\<rparr>,
                     effects := effects r @
                       map RenderTemplate (filter (is_template (sources r)) names)\<rparr>)"
proof -
  let ?src = "(sources r)\<lparr>dep_graph := g'\<rparr>"
  have "dom (children g') = dom (children (dep_graph (sources r)))"
    using update_dom_children[of ord "dep_graph (sources r)" filename N] upd by simp
  then have "finite (dom (children g'))" using fin by simp
  then have "\<exists>names x. iterate ord (get_descendants g' filename) [] = Some (names, x)"
    by (rule iterate_descendants_ends)
  then obtain names x where it: "iterate ord (get_descendants g' filename) [] = Some (names, x)"
    by blast
  have ns: "\<not> is_static (sources r) filename" and ni: "\<not> is_ignored filename"
    using ev by (simp_all add: template_or_data_event_def)
  have gd: "get_dependencies ?src filename = Generator (get_descendants g' filename)"
    using get_dependencies_else[of ?src filename] ns ni nt by simp
  have deps: "iterate_deps ord (get_dependencies ?src filename) = Some (names, x)"
    by (simp add: gd iterate_deps_def it)
  have "event_handler ord fs r event_type src_path =
             Some (map_option GraphError x,
                   r\<lparr>sources := ?src,
                     effects := effects r @
                       map RenderTemplate (filter (is_template (sources r)) names)\<rparr>)"
    using dep upd nt deps by (simp add: event_handler_else[OF ev] update_dep_graph_unfold)
  with it deps show ?thesis by blast
qed

section \<open>Runs of the classifier and the reactor\<close>

lemmas classify_defs = is_partial_def is_ignored_def is_template_def is_static_def is_data_def
  example_sources_def os_path_sep_def startswith_def

lemma roles_mixins:
  "is_partial ''static/_mixins.css''" "is_static example_sources ''static/_mixins.css''"
  by (simp_all add: classify_defs)

lemma roles_git:
  "is_ignored ''.git/config''" "\<not> is_static example_sources ''.git/config''"
  "\<not> is_template example_sources ''.git/config''" "\<not> is_partial ''.git/config''"
  "\<not> is_data example_sources ''.git/config''"
  by (simp_all add: classify_defs)

lemma roles_chain:
  "is_partial ''_base.html''" "\<not> is_template example_sources ''_layout.html''"
  "\<not> is_static example_sources ''_base.html''"
  "\<not> is_ignored ''_base.html''" "\<not> is_template example_sources ''_base.html''"
  by (simp_all add: classify_defs)

lemma roles_page:
  "is_template example_sources ''page.html''" "\<not> is_partial ''page.html''"
  "\<not> is_ignored ''page.html''" "\<not> is_static example_sources ''page.html''"
  "\<not> is_data example_sources ''page.html''"
  by (simp_all add: classify_defs)


lemma example_reloader_simps:
  "sources example_reloader = example_sources" "effects example_reloader = []"
  "searchpath example_reloader = ''/site''"
  "example_reloader\<lparr>sources := example_sources\<rparr> = example_reloader"
  "dep_graph example_sources = chain_graph"
  "example_sources\<lparr>dep_graph := chain_graph\<rparr> = example_sources"
  by (simp_all add: example_reloader_def example_sources_def)

lemma fs_simps:
  "isfile failing_fs = isfile example_fs" "relpath failing_fs = relpath example_fs"
  "isfile growing_fs = isfile example_fs" "relpath growing_fs = relpath example_fs"
  "find_jinja_deps failing_fs f = None" "find_jinja_deps growing_fs f = Some {''_new.html''}"
  "find_jinja_deps example_fs f = Some (old_parents_of chain_graph f)"
  by (simp_all add: failing_fs_def growing_fs_def example_fs_def)

lemma relpath_examples:
  "relpath example_fs ''/site/static/_mixins.css'' ''/site'' = Inr ''static/_mixins.css''"
  "relpath example_fs ''/site/.git/config'' ''/site'' = Inr ''.git/config''"
  "relpath example_fs ''/site/_base.html'' ''/site'' = Inr ''_base.html''"
  "relpath example_fs ''/site/page.html'' ''/site'' = Inr ''page.html''"
  "relpath example_fs [] ''/site'' = Inl ValueError"
  by (simp_all add: example_fs_def)

lemma should_handle_any:
  "should_handle fs example_reloader event_type src_path \<longleftrightarrow>
     (event_type = ''modified'' \<or> event_type = ''created'') \<and> prefix ''/site'' src_path \<and>
     isfile fs src_path"
  by (simp add: should_handle_def example_reloader_simps startswith_def)

lemma isfile_example: "isfile example_fs p"
  by (simp add: example_fs_def)

lemma handles_examples:
  "handles example_fs example_reloader ''modified'' ''/site/static/_mixins.css'' ''static/_mixins.css''"
  "handles example_fs example_reloader ''modified'' ''/site/.git/config'' ''.git/config''"
  by (simp_all add: handles_def example_reloader_simps relpath_examples should_handle_any
      isfile_example)

lemma else_examples:
  "template_or_data_event example_fs example_reloader ''modified'' ''/site/_base.html'' ''_base.html''"
  "template_or_data_event example_fs example_reloader ''modified'' ''/site/page.html'' ''page.html''"
  "template_or_data_event failing_fs example_reloader ''modified'' ''/site/_base.html'' ''_base.html''"
  "template_or_data_event growing_fs example_reloader ''modified'' ''/site/page.html'' ''page.html''"
  by (simp_all add: template_or_data_event_def handles_def example_reloader_simps relpath_examples
      should_handle_any isfile_example fs_simps roles_chain roles_page)

lemma get_file_dep_examples:
  "get_file_dep (find_jinja_deps example_fs) example_sources f = Some (old_parents_of chain_graph f)"
  "get_file_dep (find_jinja_deps failing_fs) example_sources f = None"
  "get_file_dep (find_jinja_deps growing_fs) example_sources f = Some {''_new.html''}"
  by (simp_all add: get_file_dep_def fs_simps example_sources_def)

lemma update_chain_noop:
  "update path_order chain_graph f (old_parents_of chain_graph f) = (None, chain_graph)"
  by (simp add: update_def)

lemma update_chain_fails:
  "fst (update path_order chain_graph ''page.html'' {''_new.html''}) = Some KeyError"
  by (simp add: update_def Let_def old_parents_of_def chain_graph_def path_order_simps
      insert_Diff_if)

lemma chain_run:
  "iterate path_order (get_descendants chain_graph ''_base.html'') [] =
     Some ([''_layout.html'', ''page.html''], None)"
  by (simp add: iterate.simps get_descendants_def connected_components_def cc_start_def
      chain_graph_def path_order_simps)

lemma finite_chain: "finite (dom (children chain_graph))"
  by (simp add: chain_graph_def)

section \<open>Claims about roles, the reactor and get_dependencies\<close>

text \<open>
  C5 (as amended). The code assigns no role by precedence; what it has is this.
  \<^verbatim>\<open>is_template\<close> holds exactly when none of \<^verbatim>\<open>is_partial\<close>, \<^verbatim>\<open>is_ignored\<close>, \<^verbatim>\<open>is_static\<close> and
  \<^verbatim>\<open>is_data\<close> holds, so template is the fallback whatever the order of the four tests, and a
  path with a segment that starts with an underscore is never a template, whatever prefix it
  lies under. The change reactor uses an order of its own. An exception of \<^verbatim>\<open>relpath\<close>
  escapes; an event that \<^verbatim>\<open>should_handle\<close> rejects changes nothing; a static file is copied,
  before any other test; a file that is not static and is ignored is dropped; every other
  file goes to the graph update. There a failure of the extractor or of \<^verbatim>\<open>update\<close> escapes and
  nothing is rendered; after a successful update a template is rendered itself; and for any
  other file, on a graph with finitely many keys, the traversal of its descendants ends and
  the templates among the names it yields are rendered, in that order, before the exception
  that ended the traversal, if any, escapes.
\<close>

theorem roles_and_reactor_order:
  "(is_template src path \<longleftrightarrow>
      \<not> is_partial path \<and> \<not> is_ignored path \<and> \<not> is_static src path \<and> \<not> is_data src path) \<and>
   (relpath fs src_path (searchpath r) = Inl e \<longrightarrow>
      event_handler ord fs r event_type src_path = Some (Some (PathError e), r)) \<and>
   (relpath fs src_path (searchpath r) = Inr filename \<and>
      \<not> should_handle fs r event_type src_path \<longrightarrow>
      event_handler ord fs r event_type src_path = Some (None, r)) \<and>
   (handles fs r event_type src_path filename \<and> is_static (sources r) filename \<longrightarrow>
      event_handler ord fs r event_type src_path =
        Some (None, r\<lparr>effects := effects r @ [CopyStatic [filename]]\<rparr>)) \<and>
   (handles fs r event_type src_path filename \<and> \<not> is_static (sources r) filename \<and>
      is_ignored filename \<longrightarrow>
      event_handler ord fs r event_type src_path = Some (None, r)) \<and>
   (template_or_data_event fs r event_type src_path filename \<and>
      get_file_dep (find_jinja_deps fs) (sources r) filename = None \<longrightarrow>
      event_handler ord fs r event_type src_path = Some (Some ExtractorError, r)) \<and>
   (template_or_data_event fs r event_type src_path filename \<and>
      get_file_dep (find_jinja_deps fs) (sources r) filename = Some N \<and>
      update ord (dep_graph (sources r)) filename N = (Some e', g') \<longrightarrow>
      event_handler ord fs r event_type src_path =
        Some (Some (GraphError e'), r\<lparr>sources := (sources r)\<lparr>dep_graph := g'\<rparr>\<rparr>)) \<and>
   (template_or_data_event fs r event_type src_path filename \<and>
      get_file_dep (find_jinja_deps fs) (sources r) filename = Some N \<and>
      update ord (dep_graph (sources r)) filename N = (None, g') \<and>
      is_template (sources r) filename \<longrightarrow>
      event_handler ord fs r event_type src_path =
        Some (None, r\<lparr>sources := (sources r)\<lparr>dep_graph := g'\<rparr>,
                       effects := effects r @ [RenderTemplate filename]\<rparr>)) \<and>
   (template_or_data_event fs r event_type src_path filename \<and>
      get_file_dep (find_jinja_deps fs) (sources r) filename = Some N \<and>
      update ord (dep_graph (sources r)) filename N = (None, g') \<and>
      \<not> is_template (sources r) filename \<and>
      finite (dom (children (dep_graph (sources r)))) \<longrightarrow>
      (\<exists>names x.
         iterate ord (get_descendants g' filename) [] = Some (names, x) \<and>
         event_handler ord fs r event_type src_path =
           Some (map_option GraphError x,
                 r\<lparr>sources := (sources r)\<lparr>dep_graph := g'\<rparr>,
                   effects := effects r @
                     map RenderTemplate (filter (is_template (sources r)) names)\<rparr>)))"
proof (intro conjI impI)
  show "is_template src path \<longleftrightarrow>
      \<not> is_partial path \<and> \<not> is_ignored path \<and> \<not> is_static src path \<and> \<not> is_data src path"
    by (rule is_template_iff)
next
  assume "relpath fs src_path (searchpath r) = Inl e"
  then show "event_handler ord fs r event_type src_path = Some (Some (PathError e), r)"
    by (simp add: event_handler_def)
next
  assume "relpath fs src_path (searchpath r) = Inr filename \<and>
      \<not> should_handle fs r event_type src_path"
  then show "event_handler ord fs r event_type src_path = Some (None, r)"
    by (simp add: event_handler_def)
next
  assume "handles fs r event_type src_path filename \<and> is_static (sources r) filename"
  then show "event_handler ord fs r event_type src_path =
        Some (None, r\<lparr>effects := effects r @ [CopyStatic [filename]]\<rparr>)"
    by (simp add: event_handler_def handles_def)
next
  assume "handles fs r event_type src_path filename \<and> \<not> is_static (sources r) filename \<and>
      is_ignored filename"
  then show "event_handler ord fs r event_type src_path = Some (None, r)"
    by (simp add: event_handler_def handles_def)
next
  assume "template_or_data_event fs r event_type src_path filename \<and>
      get_file_dep (find_jinja_deps fs) (sources r) filename = None"
  then show "event_handler ord fs r event_type src_path = Some (Some ExtractorError, r)"
    using event_handler_extractor_fails by blast
next
  assume "template_or_data_event fs r event_type src_path filename \<and>
      get_file_dep (find_jinja_deps fs) (sources r) filename = Some N \<and>
      update ord (dep_graph (sources r)) filename N = (Some e', g')"
  then show "event_handler ord fs r event_type src_path =
        Some (Some (GraphError e'), r\<lparr>sources := (sources r)\<lparr>dep_graph := g'\<rparr>\<rparr>)"
    using event_handler_update_fails by blast
next
  assume "template_or_data_event fs r event_type src_path filename \<and>
      get_file_dep (find_jinja_deps fs) (sources r) filename = Some N \<and>
      update ord (dep_graph (sources r)) filename N = (None, g') \<and>
      is_template (sources r) filename"
  then show "event_handler ord fs r event_type src_path =
        Some (None, r\<lparr>sources := (sources r)\<lparr>dep_graph := g'\<rparr>,
                       effects := effects r @ [RenderTemplate filename]\<rparr>)"
    using event_handler_template by blast
next
  assume "template_or_data_event fs r event_type src_path filename \<and>
      get_file_dep (find_jinja_deps fs) (sources r) filename = Some N \<and>
      update ord (dep_graph (sources r)) filename N = (None, g') \<and>
      \<not> is_template (sources r) filename \<and>
      finite (dom (children (dep_graph (sources r))))"
  then have "\<exists>names x.
           iterate ord (get_descendants g' filename) [] = Some (names, x) \<and>
           iterate_deps ord (get_dependencies ((sources r)\<lparr>dep_graph := g'\<rparr>) filename) =
             Some (names, x) \<and>
           event_handler ord fs r event_type src_path =
             Some (map_option GraphError x,
                   r\<lparr>sources := (sources r)\<lparr>dep_graph := g'\<rparr>,
                     effects := effects r @
                       map RenderTemplate (filter (is_template (sources r)) names)\<rparr>)"
    using event_handler_descendants by blast
  then show "\<exists>names x.
         iterate ord (get_descendants g' filename) [] = Some (names, x) \<and>
         event_handler ord fs r event_type src_path =
           Some (map_option GraphError x,
                 r\<lparr>sources := (sources r)\<lparr>dep_graph := g'\<rparr>,
                   effects := effects r @
                     map RenderTemplate (filter (is_template (sources r)) names)\<rparr>)"
    by blast
qed

theorem roles_and_reactor_order_witness:
  "is_template example_sources ''page.html'' \<and>
   is_partial ''static/_mixins.css'' \<and> is_static example_sources ''static/_mixins.css'' \<and>
   \<not> is_template example_sources ''static/_mixins.css'' \<and>
   relpath example_fs [] (searchpath example_reloader) = Inl ValueError \<and>
   event_handler path_order example_fs example_reloader ''modified'' [] =
     Some (Some (PathError ValueError), example_reloader) \<and>
   \<not> should_handle example_fs example_reloader ''deleted'' ''/site/page.html'' \<and>
   event_handler path_order example_fs example_reloader ''deleted'' ''/site/page.html'' =
     Some (None, example_reloader) \<and>
   event_handler path_order example_fs example_reloader ''modified'' ''/site/static/_mixins.css'' =
     Some (None, example_reloader\<lparr>effects := [CopyStatic [''static/_mixins.css'']]\<rparr>) \<and>
   is_ignored ''.git/config'' \<and>
   event_handler path_order example_fs example_reloader ''modified'' ''/site/.git/config'' =
     Some (None, example_reloader) \<and>
   event_handler path_order failing_fs example_reloader ''modified'' ''/site/_base.html'' =
     Some (Some ExtractorError, example_reloader) \<and>
   event_handler path_order growing_fs example_reloader ''modified'' ''/site/page.html'' =
     Some (Some (GraphError KeyError),
           example_reloader\<lparr>sources := example_sources\<lparr>dep_graph :=
             snd (update path_order chain_graph ''page.html'' {''_new.html''})\<rparr>\<rparr>) \<and>
   event_handler path_order example_fs example_reloader ''modified'' ''/site/page.html'' =
     Some (None, example_reloader\<lparr>effects := [RenderTemplate ''page.html'']\<rparr>) \<and>
   event_handler path_order example_fs example_reloader ''modified'' ''/site/_base.html'' =
     Some (None, example_reloader\<lparr>effects := [RenderTemplate ''page.html'']\<rparr>)"
proof -
  note ex = example_reloader_simps
  have t1: "is_template example_sources ''page.html''"
    using roles_and_reactor_order [where src = example_sources and path = "''page.html''", THEN conjunct1]
      roles_page by simp
  have t2: "\<not> is_template example_sources ''static/_mixins.css''"
    using roles_and_reactor_order [where src = example_sources
        and path = "''static/_mixins.css''", THEN conjunct1]
      roles_mixins by simp
  have p0: "relpath example_fs [] (searchpath example_reloader) = Inl ValueError"
    by (simp add: ex relpath_examples)
  have h0: "event_handler path_order example_fs example_reloader ''modified'' [] =
     Some (Some (PathError ValueError), example_reloader)"
    using p0 by (rule roles_and_reactor_order [where fs = example_fs and r = example_reloader
        and src_path = "[]" and e = ValueError and ord = path_order
        and event_type = "''modified''", THEN conjunct2, THEN conjunct1, THEN mp])
  have n1: "\<not> should_handle example_fs example_reloader ''deleted'' ''/site/page.html''"
    by (simp add: should_handle_any)
  have "relpath example_fs ''/site/page.html'' (searchpath example_reloader) = Inr ''page.html'' \<and>
      \<not> should_handle example_fs example_reloader ''deleted'' ''/site/page.html''"
    using n1 by (simp add: ex relpath_examples)
  then have h1: "event_handler path_order example_fs example_reloader ''deleted'' ''/site/page.html'' =
     Some (None, example_reloader)"
    by (rule roles_and_reactor_order [where fs = example_fs and r = example_reloader
        and src_path = "''/site/page.html''" and filename = "''page.html''" and ord = path_order
        and event_type = "''deleted''", THEN conjunct2, THEN conjunct2, THEN conjunct1, THEN mp])
  have "handles example_fs example_reloader ''modified'' ''/site/static/_mixins.css''
          ''static/_mixins.css'' \<and>
        is_static (sources example_reloader) ''static/_mixins.css''"
    using handles_examples roles_mixins by (simp add: ex)
  then have "event_handler path_order example_fs example_reloader ''modified''
      ''/site/static/_mixins.css'' =
     Some (None, example_reloader\<lparr>effects := effects example_reloader @
        [CopyStatic [''static/_mixins.css'']]\<rparr>)"
    by (rule roles_and_reactor_order [where fs = example_fs and r = example_reloader
        and src_path = "''/site/static/_mixins.css''" and filename = "''static/_mixins.css''"
        and ord = path_order and event_type = "''modified''", THEN conjunct2, THEN conjunct2, THEN conjunct2, THEN conjunct1, THEN mp])
  then have h2: "event_handler path_order example_fs example_reloader ''modified''
      ''/site/static/_mixins.css'' =
     Some (None, example_reloader\<lparr>effects := [CopyStatic [''static/_mixins.css'']]\<rparr>)"
    by (simp add: ex)
  have "handles example_fs example_reloader ''modified'' ''/site/.git/config'' ''.git/config'' \<and>
        \<not> is_static (sources example_reloader) ''.git/config'' \<and> is_ignored ''.git/config''"
    using handles_examples roles_git by (simp add: ex)
  then have h3: "event_handler path_order example_fs example_reloader ''modified''
      ''/site/.git/config'' = Some (None, example_reloader)"
    by (rule roles_and_reactor_order [where fs = example_fs and r = example_reloader
        and src_path = "''/site/.git/config''" and filename = "''.git/config''"
        and ord = path_order and event_type = "''modified''", THEN conjunct2, THEN conjunct2, THEN conjunct2, THEN conjunct2, THEN conjunct1, THEN mp])
  have "template_or_data_event failing_fs example_reloader ''modified'' ''/site/_base.html''
          ''_base.html'' \<and>
        get_file_dep (find_jinja_deps failing_fs) (sources example_reloader) ''_base.html'' = None"
    using else_examples get_file_dep_examples by (simp add: ex)
  then have h4: "event_handler path_order failing_fs example_reloader ''modified''
      ''/site/_base.html'' = Some (Some ExtractorError, example_reloader)"
    by (rule roles_and_reactor_order [where fs = failing_fs and r = example_reloader
        and src_path = "''/site/_base.html''" and filename = "''_base.html''"
        and ord = path_order and event_type = "''modified''", THEN conjunct2, THEN conjunct2, THEN conjunct2, THEN conjunct2, THEN conjunct2, THEN conjunct1, THEN mp])
  obtain g' where u: "update path_order chain_graph ''page.html'' {''_new.html''} = (Some KeyError, g')"
    using update_chain_fails
    by (cases "update path_order chain_graph ''page.html'' {''_new.html''}") simp
  have "template_or_data_event growing_fs example_reloader ''modified'' ''/site/page.html''
          ''page.html'' \<and>
        get_file_dep (find_jinja_deps growing_fs) (sources example_reloader) ''page.html'' =
          Some {''_new.html''} \<and>
        update path_order (dep_graph (sources example_reloader)) ''page.html'' {''_new.html''} =
          (Some KeyError, g')"
    using else_examples get_file_dep_examples u by (simp add: ex)
  then have "event_handler path_order growing_fs example_reloader ''modified'' ''/site/page.html'' =
     Some (Some (GraphError KeyError),
           example_reloader\<lparr>sources := (sources example_reloader)\<lparr>dep_graph := g'\<rparr>\<rparr>)"
    by (rule roles_and_reactor_order [where fs = growing_fs and r = example_reloader
        and src_path = "''/site/page.html''" and filename = "''page.html''"
        and ord = path_order and event_type = "''modified''" and N = "{''_new.html''}"
        and e' = KeyError and g' = g', THEN conjunct2, THEN conjunct2, THEN conjunct2, THEN conjunct2, THEN conjunct2, THEN conjunct2, THEN conjunct1, THEN mp])
  then have h5: "event_handler path_order growing_fs example_reloader ''modified'' ''/site/page.html'' =
     Some (Some (GraphError KeyError),
           example_reloader\<lparr>sources := example_sources\<lparr>dep_graph :=
             snd (update path_order chain_graph ''page.html'' {''_new.html''})\<rparr>\<rparr>)"
    by (simp add: ex u)
  have "template_or_data_event example_fs example_reloader ''modified'' ''/site/page.html''
          ''page.html'' \<and>
        get_file_dep (find_jinja_deps example_fs) (sources example_reloader) ''page.html'' =
          Some (old_parents_of chain_graph ''page.html'') \<and>
        update path_order (dep_graph (sources example_reloader)) ''page.html''
          (old_parents_of chain_graph ''page.html'') = (None, chain_graph) \<and>
        is_template (sources example_reloader) ''page.html''"
    using else_examples get_file_dep_examples update_chain_noop roles_page by (simp add: ex)
  then have "event_handler path_order example_fs example_reloader ''modified'' ''/site/page.html'' =
     Some (None, example_reloader\<lparr>sources := (sources example_reloader)\<lparr>dep_graph := chain_graph\<rparr>,
                       effects := effects example_reloader @ [RenderTemplate ''page.html'']\<rparr>)"
    by (rule roles_and_reactor_order [where fs = example_fs and r = example_reloader
        and src_path = "''/site/page.html''" and filename = "''page.html''"
        and ord = path_order and event_type = "''modified''"
        and N = "old_parents_of chain_graph ''page.html''" and g' = chain_graph, THEN conjunct2, THEN conjunct2, THEN conjunct2, THEN conjunct2, THEN conjunct2, THEN conjunct2, THEN conjunct2, THEN conjunct1, THEN mp])
  then have h6: "event_handler path_order example_fs example_reloader ''modified'' ''/site/page.html'' =
     Some (None, example_reloader\<lparr>effects := [RenderTemplate ''page.html'']\<rparr>)"
    by (simp add: ex)
  have "template_or_data_event example_fs example_reloader ''modified'' ''/site/_base.html''
          ''_base.html'' \<and>
        get_file_dep (find_jinja_deps example_fs) (sources example_reloader) ''_base.html'' =
          Some (old_parents_of chain_graph ''_base.html'') \<and>
        update path_order (dep_graph (sources example_reloader)) ''_base.html''
          (old_parents_of chain_graph ''_base.html'') = (None, chain_graph) \<and>
        \<not> is_template (sources example_reloader) ''_base.html'' \<and>
        finite (dom (children (dep_graph (sources example_reloader))))"
    using else_examples get_file_dep_examples update_chain_noop roles_chain finite_chain
    by (simp add: ex)
  then have "\<exists>names x.
         iterate path_order (get_descendants chain_graph ''_base.html'') [] = Some (names, x) \<and>
         event_handler path_order example_fs example_reloader ''modified'' ''/site/_base.html'' =
           Some (map_option GraphError x,
                 example_reloader\<lparr>sources := (sources example_reloader)\<lparr>dep_graph := chain_graph\<rparr>,
                   effects := effects example_reloader @
                     map RenderTemplate (filter (is_template (sources example_reloader)) names)\<rparr>)"
    by (rule roles_and_reactor_order [where fs = example_fs and r = example_reloader
        and src_path = "''/site/_base.html''" and filename = "''_base.html''"
        and ord = path_order and event_type = "''modified''"
        and N = "old_parents_of chain_graph ''_base.html''" and g' = chain_graph, THEN conjunct2, THEN conjunct2, THEN conjunct2, THEN conjunct2, THEN conjunct2, THEN conjunct2, THEN conjunct2, THEN conjunct2, THEN mp])
  then obtain names x where
    it: "iterate path_order (get_descendants chain_graph ''_base.html'') [] = Some (names, x)"
    and ev: "event_handler path_order example_fs example_reloader ''modified'' ''/site/_base.html'' =
           Some (map_option GraphError x,
                 example_reloader\<lparr>sources := (sources example_reloader)\<lparr>dep_graph := chain_graph\<rparr>,
                   effects := effects example_reloader @
                     map RenderTemplate (filter (is_template (sources example_reloader)) names)\<rparr>)"
    by blast
  from it have nx: "names = [''_layout.html'', ''page.html'']" "x = None"
    by (simp_all add: chain_run)
  have h7: "event_handler path_order example_fs example_reloader ''modified'' ''/site/_base.html'' =
     Some (None, example_reloader\<lparr>effects := [RenderTemplate ''page.html'']\<rparr>)"
    unfolding ev nx using roles_chain roles_page by (simp add: ex)
  show ?thesis
    using t1 t2 p0 h0 n1 h1 h2 h3 h4 h5 h6 h7 roles_mixins roles_git
    by (intro conjI) simp_all
qed

text \<open>
  C5 as stated fails: by the precedence of the specification \<^verbatim>\<open>static/_mixins.css\<close> has the
  role partial, and the reactor copies it as a static file, without touching the graph and
  without rendering.
\<close>

theorem reactor_copies_partial_counterexample:
  "spec_role example_sources ''static/_mixins.css'' = Partial \<and>
   event_handler path_order example_fs example_reloader ''modified'' ''/site/static/_mixins.css'' =
     Some (None, example_reloader\<lparr>effects := [CopyStatic [''static/_mixins.css'']]\<rparr>)"
  using roles_mixins handles_examples
  by (simp add: spec_role_def event_handler_def handles_def example_reloader_simps)







section \<open>What from_parents builds\<close>

lemma seed_children_eq:
  "seed_children ch keys = (\<lambda>k. if k \<in> set keys then Some {} else ch k)"
  by (induction keys arbitrary: ch) (auto simp: fun_eq_iff)


lemma dom_with_child: "dom (with_child v ps ch) = dom ch"
  by (auto simp: with_child_def dom_def)


lemma add_edges_ok:
  "set ds \<subseteq> dom ch \<Longrightarrow> add_edges v ch ds = Inr (with_child v (set ds) ch)"
proof (induction ds arbitrary: ch)
  case Nil
  show ?case by (simp add: with_child_def)
next
  case (Cons d ds)
  from Cons.prems obtain s where s: "ch d = Some s" by auto
  let ?ch = "ch(d \<mapsto> insert v s)"
  have "set ds \<subseteq> dom ?ch" using Cons.prems by auto
  then have "add_edges v ?ch ds = Inr (with_child v (set ds) ?ch)" by (rule Cons.IH)
  moreover have "with_child v (set ds) ?ch = with_child v (set (d # ds)) ch"
    using s by (auto simp: with_child_def fun_eq_iff)
  ultimately show ?case using s by simp
qed


lemma add_edges_Inr: "add_edges v ch ds = Inr ch' \<Longrightarrow> set ds \<subseteq> dom ch"
proof (induction ds arbitrary: ch)
  case Nil
  show ?case by simp
next
  case (Cons d ds)
  from Cons.prems obtain s where s: "ch d = Some s" by (auto split: option.splits)
  let ?ch = "ch(d \<mapsto> insert v s)"
  have "add_edges v ?ch ds = Inr ch'" using Cons.prems s by simp
  then have "set ds \<subseteq> dom ?ch" by (rule Cons.IH)
  then show ?case using s by auto
qed

lemma dom_linked: "dom (linked ps fs ch) = dom ch"
  by (auto simp: linked_def dom_def)


lemma add_all_edges_Inr:
  assumes ord: "iteration_order ord" and fin: "\<And>v P. ps v = Some P \<Longrightarrow> finite P"
  shows "add_all_edges ord ps ch keys = Inr ch' \<Longrightarrow>
         (\<forall>f\<in>set keys. \<exists>P. ps f = Some P \<and> P \<subseteq> dom ch) \<and> ch' = linked ps (set keys) ch"
proof (induction keys arbitrary: ch)
  case Nil
  then show ?case by (auto simp: linked_def fun_eq_iff option.map_ident)
next
  case (Cons f keys)
  from Cons.prems obtain P where P: "ps f = Some P" by (auto split: option.splits)
  have setP: "set (ord P) = P" using ord fin[OF P] by (simp add: iteration_order_def)
  from Cons.prems P obtain ch1 where ch1: "add_edges f ch (ord P) = Inr ch1"
    and rest: "add_all_edges ord ps ch1 keys = Inr ch'"
    by (auto split: sum.splits)
  have sub: "P \<subseteq> dom ch" using add_edges_Inr[OF ch1] setP by simp
  then have ch1_eq: "ch1 = with_child f P ch" using add_edges_ok[of "ord P" ch f] ch1 setP by simp
  have dom1: "dom ch1 = dom ch" by (simp add: ch1_eq dom_with_child)
  from Cons.IH[OF rest]
  have ih: "\<forall>f\<in>set keys. \<exists>P. ps f = Some P \<and> P \<subseteq> dom ch1" "ch' = linked ps (set keys) ch1"
    by simp_all
  have "linked ps (set keys) (with_child f P ch) = linked ps (set (f # keys)) ch"
    using P by (auto simp: linked_def with_child_def fun_eq_iff map_option_case split: option.splits)
  then show ?case using ih P sub dom1 ch1_eq by auto
qed

lemma dom_seed: "dom (\<lambda>k. if k \<in> A then Some {} else None) = A"
  by (auto split: if_splits)

lemma from_parents_Inr:
  assumes ord: "iteration_order ord" and fd: "finite (dom ps)"
    and fin: "\<And>v P. ps v = Some P \<Longrightarrow> finite P"
    and ok: "from_parents ord ps = Inr g"
  shows "parents g = ps \<and>
         children g = (\<lambda>d. if d \<in> dom ps then Some {f. \<exists>P. ps f = Some P \<and> d \<in> P} else None) \<and>
         (\<forall>v P. ps v = Some P \<longrightarrow> P \<subseteq> dom ps)"
proof -
  define keys where "keys = ord (dom ps)"
  define seed where "seed = seed_children Map.empty keys"
  have keys: "set keys = dom ps" using ord fd by (simp add: iteration_order_def keys_def)
  have seed: "seed = (\<lambda>k. if k \<in> dom ps then Some {} else None)"
    by (simp add: seed_def seed_children_eq keys)
  have dseed: "dom seed = dom ps" unfolding seed by (rule dom_seed)
  have "from_parents ord ps =
    (case add_all_edges ord ps seed keys of Inl e \<Rightarrow> Inl e
     | Inr ch \<Rightarrow> Inr \<lparr>parents = ps, children = ch\<rparr>)"
    by (simp add: from_parents_def Let_def seed_def keys_def)
  with ok obtain ch where ch: "add_all_edges ord ps seed keys = Inr ch"
    and g: "g = \<lparr>parents = ps, children = ch\<rparr>"
    by (cases "add_all_edges ord ps seed keys") auto
  have "(\<forall>f\<in>set keys. \<exists>P. ps f = Some P \<and> P \<subseteq> dom seed) \<and> ch = linked ps (set keys) seed"
    using ord fin ch by (rule add_all_edges_Inr)
  then have closed: "\<forall>f\<in>set keys. \<exists>P. ps f = Some P \<and> P \<subseteq> dom seed"
    and ch_eq: "ch = linked ps (set keys) seed"
    by blast+
  have c1: "ch = (\<lambda>d. if d \<in> dom ps then Some {f. \<exists>P. ps f = Some P \<and> d \<in> P} else None)"
    unfolding ch_eq keys seed by (auto simp: linked_def fun_eq_iff)
  have c2: "\<forall>v P. ps v = Some P \<longrightarrow> P \<subseteq> dom ps"
  proof (intro allI impI)
    fix v P assume P: "ps v = Some P"
    then have "v \<in> set keys" unfolding keys by auto
    with closed obtain P' where "ps v = Some P'" "P' \<subseteq> dom seed" by blast
    with P show "P \<subseteq> dom ps" unfolding dseed by simp
  qed
  show ?thesis using g c1 c2 by simp
qed

lemma from_parents_invariants:
  assumes "iteration_order ord" and "finite (dom ps)"
    and "\<And>v P. ps v = Some P \<Longrightarrow> finite P"
    and "from_parents ord ps = Inr g"
  shows "I1 g \<and> I2 g \<and> finite_graph g"
proof -
  have "parents g = ps \<and>
         children g = (\<lambda>d. if d \<in> dom ps then Some {f. \<exists>P. ps f = Some P \<and> d \<in> P} else None) \<and>
         (\<forall>v P. ps v = Some P \<longrightarrow> P \<subseteq> dom ps)"
    using assms by (rule from_parents_Inr)
  then have p: "parents g = ps"
    and c: "children g = (\<lambda>d. if d \<in> dom ps then Some {f. \<exists>P. ps f = Some P \<and> d \<in> P} else None)"
    and closed: "\<forall>v P. ps v = Some P \<longrightarrow> P \<subseteq> dom ps"
    by simp_all
  have dc: "dom (children g) = dom ps" by (auto simp: c split: if_splits)
  have "I1 g" unfolding I1_def p c using closed by (auto split: if_splits)
  moreover have "I2 g" unfolding I2_def p dc using closed by (auto simp: c split: if_splits)
  moreover have "finite_graph g"
    unfolding finite_graph_def p dc
  proof (intro conjI allI impI)
    show "finite (dom ps)" "finite (dom ps)" by fact+
    show "finite P" if "ps v = Some P" for v P using that by (rule assms(3))
    show "finite C" if "children g u = Some C" for u C
    proof -
      have "C \<subseteq> dom ps" using that by (auto simp: c split: if_splits)
      then show ?thesis using assms(2) by (rule finite_subset)
    qed
  qed
  ultimately show ?thesis by simp
qed

section \<open>What a successful update preserves\<close>

lemma update_Inr_cases:
  assumes ord: "iteration_order ord" and fin: "finite N" "finite (old_parents_of g v)"
    and ok: "update ord g v N = (None, g')"
  shows "(N = old_parents_of g v \<and> g' = g) \<or>
         (N \<noteq> old_parents_of g v \<and> N - old_parents_of g v \<subseteq> dom (children g) \<and>
          (\<forall>p\<in>old_parents_of g v - N. \<exists>s. children g p = Some s \<and> v \<in> s) \<and>
          g' = g\<lparr>children := with_child v (N - old_parents_of g v)
                            (without v (old_parents_of g v - N) (children g)),
                 parents := (parents g)(v \<mapsto> N)\<rparr>)"
proof (cases "N = old_parents_of g v")
  case True
  then show ?thesis using ok by (simp add: update_def)
next
  case False
  have good: "(\<forall>p\<in>old_parents_of g v - N. \<exists>s. children g p = Some s \<and> v \<in> s) \<and>
              N - old_parents_of g v \<subseteq> dom (children g)"
  proof (rule ccontr)
    assume "\<not> ?thesis"
    then have "fst (update ord g v N) = Some KeyError"
      using update_fails[OF ord fin False] by blast
    with ok show False by simp
  qed
  then have "update ord g v N =
     (None, g\<lparr>children := with_child v (N - old_parents_of g v)
                            (without v (old_parents_of g v - N) (children g)),
              parents := (parents g)(v \<mapsto> N)\<rparr>)"
    using update_ok[OF ord fin _ _ False] by blast
  with ok False good show ?thesis by simp
qed

lemma I1_update:
  assumes ord: "iteration_order ord" and fin: "finite N" "finite (old_parents_of g v)"
    and ok: "update ord g v N = (None, g')" and I1: "I1 g"
  shows "I1 g'"
proof -
  from update_Inr_cases[OF ord fin ok] show ?thesis
  proof (elim disjE conjE)
    assume "g' = g" with I1 show ?thesis by simp
  next
    let ?old = "old_parents_of g v"
    assume new: "N - ?old \<subseteq> dom (children g)"
      and g': "g' = g\<lparr>children := with_child v (N - ?old) (without v (?old - N) (children g)),
                 parents := (parents g)(v \<mapsto> N)\<rparr>"
    have a: "u \<in> ?old \<longleftrightarrow> (\<exists>P. parents g v = Some P \<and> u \<in> P)" for u
      by (auto simp: old_parents_of_def split: option.splits)
    have b: "(\<exists>P. parents g v = Some P \<and> u \<in> P) = (\<exists>C. children g u = Some C \<and> v \<in> C)" for u
      using I1 unfolding I1_def by blast
    have old: "u \<in> ?old \<longleftrightarrow> (\<exists>C. children g u = Some C \<and> v \<in> C)" for u
      unfolding a b ..
    show ?thesis
      unfolding I1_def
    proof (intro allI)
      fix u w
      show "(\<exists>P. parents g' w = Some P \<and> u \<in> P) = (\<exists>C. children g' u = Some C \<and> w \<in> C)"
      proof (cases "w = v")
        case True
        have "(\<exists>C. children g' u = Some C \<and> v \<in> C) \<longleftrightarrow> u \<in> N"
          using old[of u] new
          by (auto simp: g' with_child_def without_def split: if_splits)
        then show ?thesis using True by (simp add: g')
      next
        case False
        have "(\<exists>C. children g' u = Some C \<and> w \<in> C) \<longleftrightarrow> (\<exists>C. children g u = Some C \<and> w \<in> C)"
          using False by (auto simp: g' with_child_def without_def split: if_splits)
        moreover have "parents g' w = parents g w" using False by (simp add: g')
        ultimately show ?thesis using I1 by (simp add: I1_def)
      qed
    qed
  qed
qed

lemma finite_graph_update:
  assumes ord: "iteration_order ord" and fin: "finite N" "finite (old_parents_of g v)"
    and ok: "update ord g v N = (None, g')" and fg: "finite_graph g"
  shows "finite_graph g'"
proof -
  from update_Inr_cases[OF ord fin ok] show ?thesis
  proof (elim disjE conjE)
    assume "g' = g" with fg show ?thesis by simp
  next
    let ?old = "old_parents_of g v"
    assume g': "g' = g\<lparr>children := with_child v (N - ?old) (without v (?old - N) (children g)),
                 parents := (parents g)(v \<mapsto> N)\<rparr>"
    have dc: "dom (children g') = dom (children g)"
      by (simp add: g' dom_with_child dom_without)
    have "finite C" if "children g' u = Some C" for u C
      using that fg
      by (auto simp: g' with_child_def without_def finite_graph_def split: if_splits)
    moreover have "finite P" if "parents g' w = Some P" for w P
      using that fg fin by (auto simp: g' finite_graph_def split: if_splits)
    moreover have "finite (dom (parents g'))" using fg by (simp add: g' finite_graph_def)
    moreover have "finite (dom (children g'))" using fg dc by (simp add: finite_graph_def)
    ultimately show ?thesis unfolding finite_graph_def by blast
  qed
qed

lemma finite_old_parents: "finite_graph g \<Longrightarrow> finite (old_parents_of g v)"
  by (auto simp: finite_graph_def old_parents_of_def split: option.splits)

lemma I2_update_known:
  assumes ord: "iteration_order ord" and fin: "finite N" "finite (old_parents_of g v)"
    and ok: "update ord g v N = (None, g')" and I2: "I2 g" and known: "v \<in> dom (parents g)"
  shows "I2 g'"
proof -
  from update_Inr_cases[OF ord fin ok] show ?thesis
  proof (elim disjE conjE)
    assume "g' = g" with I2 show ?thesis by simp
  next
    let ?old = "old_parents_of g v"
    assume new: "N - ?old \<subseteq> dom (children g)"
      and g': "g' = g\<lparr>children := with_child v (N - ?old) (without v (?old - N) (children g)),
                 parents := (parents g)(v \<mapsto> N)\<rparr>"
    have dom_eq: "dom (parents g) = dom (children g)"
      using I2 unfolding I2_def by blast
    have pc: "P \<subseteq> dom (parents g)" if "parents g w = Some P" for w P
      using I2 that unfolding I2_def by blast
    have cc: "C \<subseteq> dom (children g)" if "children g u = Some C" for u C
      using I2 that unfolding I2_def by blast
    have dc: "dom (children g') = dom (children g)"
      by (simp add: g' dom_with_child dom_without)
    have dp: "dom (parents g') = dom (parents g)" using known by (auto simp: g')
    have oldsub: "?old \<subseteq> dom (parents g)"
      using pc[of v] by (auto simp: old_parents_of_def split: option.splits)
    have N: "N \<subseteq> dom (parents g)" using new oldsub dom_eq by auto
    have 1: "P \<subseteq> dom (parents g')" if "parents g' w = Some P" for w P
    proof (cases "w = v")
      case True
      then have "P = N" using that by (simp add: g')
      then show ?thesis using N dp by simp
    next
      case False
      then have "parents g w = Some P" using that by (simp add: g')
      then have "P \<subseteq> dom (parents g)" by (rule pc)
      then show ?thesis using dp by simp
    qed
    have 2: "C \<subseteq> dom (children g')" if "children g' u = Some C" for u C
    proof -
      have "\<exists>C0. children g u = Some C0 \<and> C \<subseteq> insert v C0"
        using that by (auto simp: g' with_child_def without_def split: if_splits)
      then obtain C0 where C0: "children g u = Some C0" and sub: "C \<subseteq> insert v C0"
        by blast
      have "v \<in> dom (children g)" using known dom_eq by simp
      with cc[OF C0] sub show ?thesis unfolding dc by auto
    qed
    have 3: "dom (parents g') = dom (children g')" using dp dc dom_eq by simp
    show ?thesis unfolding I2_def
    proof (intro conjI allI impI)
      show "dom (parents g') = dom (children g')" by (rule 3)
      show "P \<subseteq> dom (parents g')" if "parents g' w = Some P" for w P using that by (rule 1)
      show "C \<subseteq> dom (children g')" if "children g' u = Some C" for u C using that by (rule 2)
    qed
  qed
qed

lemma built_I1:
  assumes ord: "iteration_order ord"
  shows "built ord g \<Longrightarrow> I1 g \<and> finite_graph g"
proof (induction rule: built.induct)
  case (build ps g)
  have "I1 g \<and> I2 g \<and> finite_graph g"
    using ord build by (rule from_parents_invariants)
  then show ?case by simp
next
  case (updated g new_parents v g')
  have f: "finite (old_parents_of g v)" using updated.IH by (simp add: finite_old_parents)
  show ?case
    using I1_update[OF ord updated.hyps(2) f updated.hyps(3)]
      finite_graph_update[OF ord updated.hyps(2) f updated.hyps(3)] updated.IH by simp
qed

lemma built_known_I1_I2:
  assumes ord: "iteration_order ord"
  shows "built_known ord g \<Longrightarrow> I1 g \<and> I2 g \<and> finite_graph g"
proof (induction rule: built_known.induct)
  case (build_known ps g)
  show ?case using ord build_known by (rule from_parents_invariants)
next
  case (updated_known g new_parents v g')
  have f: "finite (old_parents_of g v)" using updated_known.IH by (simp add: finite_old_parents)
  show ?case
    using I1_update[OF ord updated_known.hyps(2) f updated_known.hyps(4)]
      finite_graph_update[OF ord updated_known.hyps(2) f updated_known.hyps(4)]
      I2_update_known[OF ord updated_known.hyps(2) f updated_known.hyps(4) _ updated_known.hyps(3)]
      updated_known.IH by simp
qed

section \<open>The invariants along a run of the graph\<close>

text \<open>
  The lemmas \<open>built_I1\<close> and \<open>built_known_I1_I2\<close> above give what the code keeps: after a
  successful \<^verbatim>\<open>from_parents\<close> and any number of successful calls of \<^verbatim>\<open>update\<close> the graph
  satisfies I1, and it satisfies I2 as long as every vertex updated was a key already. The
  runs below are of the remaining case.
\<close>

lemma build_base: "from_parents path_order [''_base.html'' \<mapsto> {}] = Inr base_graph"
  by (simp add: from_parents_def path_order_simps base_graph_def)

lemma grow_base:
  "update path_order base_graph ''new.html'' {''_base.html''} = (None, grown_graph)"
  by (simp add: update_def old_parents_of_def base_graph_def grown_graph_def path_order_simps)

lemma not_I2_grown: "\<not> I2 grown_graph"
  by (auto simp: I2_def grown_graph_def)

lemma I1_grown: "I1 grown_graph"
  by (auto simp: I1_def grown_graph_def split: if_splits)

lemma grown_run:
  "iterate path_order (get_descendants grown_graph ''_base.html'') [] =
     Some ([''new.html''], Some KeyError)"
  by (simp add: iterate.simps get_descendants_def connected_components_def cc_start_def
      grown_graph_def path_order_simps)

lemma po2: "path_order {''page.html'', ''_base.html''} = [''_base.html'', ''page.html'']"
  by (simp add: path_order_def)

lemma build_site: "from_parents path_order site_parents = Inr site_graph"
  by (simp add: from_parents_def site_parents_def site_graph_def po2 path_order_simps insert_commute)

text \<open>
  C3, at the input where the code departs from it. \<^verbatim>\<open>from_parents\<close> builds the graph of a site
  with the base partial alone, which satisfies I1 and I2. The template \<^verbatim>\<open>new.html\<close>, which
  extends the base, is created, and \<^verbatim>\<open>update\<close> returns normally: \<^verbatim>\<open>new.html\<close> is now a key of
  \<^verbatim>\<open>parents\<close> and a child of the base, and not a key of \<^verbatim>\<open>children\<close>. I1 holds and I2 does
  not, and the traversal from the base yields \<^verbatim>\<open>new.html\<close> and then raises \<^verbatim>\<open>KeyError\<close>.
\<close>

theorem update_of_new_vertex_breaks_I2:
  "from_parents path_order [''_base.html'' \<mapsto> {}] = Inr base_graph \<and>
   I1 base_graph \<and> I2 base_graph \<and>
   update path_order base_graph ''new.html'' {''_base.html''} = (None, grown_graph) \<and>
   ''new.html'' \<in> dom (parents grown_graph) \<and> ''new.html'' \<notin> dom (children grown_graph) \<and>
   I1 grown_graph \<and> \<not> I2 grown_graph \<and>
   iterate path_order (get_descendants grown_graph ''_base.html'') [] =
     Some ([''new.html''], Some KeyError)"
proof -
  have "I1 base_graph" by (auto simp: I1_def base_graph_def split: if_splits)
  moreover have "I2 base_graph" by (auto simp: I2_def base_graph_def split: if_splits)
  moreover have "''new.html'' \<in> dom (parents grown_graph)"
    "''new.html'' \<notin> dom (children grown_graph)"
    by (simp_all add: grown_graph_def)
  ultimately show ?thesis
    using build_base grow_base I1_grown not_I2_grown grown_run by simp
qed

theorem update_of_new_vertex_breaks_I2_witness:
  "children grown_graph ''_base.html'' = Some {''new.html''} \<and>
   \<not> {''new.html''} \<subseteq> dom (children grown_graph) \<and> \<not> I2 grown_graph"
  using update_of_new_vertex_breaks_I2 by (simp add: grown_graph_def)

end
